theory Spec2Isabelle
  imports Complex_Main "HOL-Library.Multiset"
begin

unbundle bit_operations_syntax

section \<open>The data model of csg.ts\<close>

text \<open>
  The development embeds \<^verbatim>\<open>src/csg.ts\<close>. JavaScript numbers are modelled as
  \<^typ>\<open>real\<close>: exact arithmetic on finite numbers, no rounding, no NaN and no infinity.
  The only divisions of the code are in \<^verbatim>\<open>Vector.dividedBy\<close> (reached through
  \<^verbatim>\<open>unit\<close>) and in the interpolation parameter of \<^verbatim>\<open>splitPolygon\<close>;
  where the divisor is zero HOL gives 0 and JavaScript gives NaN or an infinity, and no
  theorem below rests on such a value.

  A \<^verbatim>\<open>Vector\<close> is never assigned to after its constructor has run, so it is a value.
  \<^verbatim>\<open>Vertex\<close>, \<^verbatim>\<open>Plane\<close> and the vertex arrays are mutated in place
  (\<^verbatim>\<open>Vertex.flip\<close>, \<^verbatim>\<open>Plane.flip\<close>, \<^verbatim>\<open>Array.reverse\<close>) and can be shared,
  so they live in a store, addressed by natural numbers; so do the \<^verbatim>\<open>Polygon\<close>
  objects, whose three fields hold references. Field names carry their class as a prefix,
  since the classes share names (\<^verbatim>\<open>normal\<close>, \<^verbatim>\<open>plane\<close>, \<^verbatim>\<open>polygons\<close>).
\<close>

record Vector =
  Vector_x :: real
  Vector_y :: real
  Vector_z :: real

record Vertex =
  Vertex_pos :: Vector
  Vertex_normal :: Vector

record Plane =
  Plane_normal :: Vector
  Plane_w :: real

text \<open>A polygon object: the address of its vertex array, its tag, the address of its plane.\<close>

record 's Polygon =
  Polygon_vertices :: nat
  Polygon_shared :: 's
  Polygon_plane :: nat

text \<open>
  The store. Each kind of object has its cells and the next free address; \<^verbatim>\<open>new\<close>
  takes the next free address. A vertex array is the list of the addresses of its vertices.
\<close>

record 's Heap =
  vertexH :: "nat \<Rightarrow> Vertex"
  vertexN :: nat
  arrayH :: "nat \<Rightarrow> nat list"
  arrayN :: nat
  planeH :: "nat \<Rightarrow> Plane"
  planeN :: nat
  polygonH :: "nat \<Rightarrow> 's Polygon"
  polygonN :: nat

text \<open>
  A \<^verbatim>\<open>Node\<close> is owned by its parent (or by the operator that built it) and is passed
  around as a value: its plane is a reference or null, its children are nodes or null, its
  polygons are references.
\<close>

datatype Node =
  Node (Node_plane: "nat option") (Node_front: "Node option") (Node_back: "Node option")
       (Node_polygons: "nat list")

record CSG =
  CSG_polygons :: "nat list"

text \<open>The only exception the code can raise: a property read on null or undefined.\<close>

datatype error = TypeError

section \<open>class Vector\<close>

definition Vector_new :: "real \<Rightarrow> real \<Rightarrow> real \<Rightarrow> Vector" where
  "Vector_new a b c = \<lparr>Vector_x = a, Vector_y = b, Vector_z = c\<rparr>"

definition Vector_negated :: "Vector \<Rightarrow> Vector" where
  "Vector_negated this = Vector_new (- Vector_x this) (- Vector_y this) (- Vector_z this)"

definition Vector_plus :: "Vector \<Rightarrow> Vector \<Rightarrow> Vector" where
  "Vector_plus this a =
     Vector_new (Vector_x this + Vector_x a) (Vector_y this + Vector_y a) (Vector_z this + Vector_z a)"

definition Vector_minus :: "Vector \<Rightarrow> Vector \<Rightarrow> Vector" where
  "Vector_minus this a =
     Vector_new (Vector_x this - Vector_x a) (Vector_y this - Vector_y a) (Vector_z this - Vector_z a)"

definition Vector_times :: "Vector \<Rightarrow> real \<Rightarrow> Vector" where
  "Vector_times this a = Vector_new (Vector_x this * a) (Vector_y this * a) (Vector_z this * a)"

definition Vector_dividedBy :: "Vector \<Rightarrow> real \<Rightarrow> Vector" where
  "Vector_dividedBy this a = Vector_new (Vector_x this / a) (Vector_y this / a) (Vector_z this / a)"

definition Vector_dot :: "Vector \<Rightarrow> Vector \<Rightarrow> real" where
  "Vector_dot this a =
     Vector_x this * Vector_x a + Vector_y this * Vector_y a + Vector_z this * Vector_z a"

definition Vector_lerp :: "Vector \<Rightarrow> Vector \<Rightarrow> real \<Rightarrow> Vector" where
  "Vector_lerp this a t = Vector_plus this (Vector_times (Vector_minus a this) t)"

definition Vector_length :: "Vector \<Rightarrow> real" where
  "Vector_length this = sqrt (Vector_dot this this)"

definition Vector_unit :: "Vector \<Rightarrow> Vector" where
  "Vector_unit this = Vector_dividedBy this (Vector_length this)"

definition Vector_cross :: "Vector \<Rightarrow> Vector \<Rightarrow> Vector" where
  "Vector_cross this a =
     Vector_new (Vector_y this * Vector_z a - Vector_z this * Vector_y a)
                (Vector_z this * Vector_x a - Vector_x this * Vector_z a)
                (Vector_x this * Vector_y a - Vector_y this * Vector_x a)"

section \<open>class Vertex\<close>

text \<open>\<^verbatim>\<open>new Vertex(pos, normal)\<close> copies both vectors into a new object.\<close>

definition Vertex_new :: "Vector \<Rightarrow> Vector \<Rightarrow> 's Heap \<Rightarrow> nat \<times> 's Heap" where
  "Vertex_new p n h =
     (vertexN h,
      h\<lparr>vertexH := (vertexH h)(vertexN h := \<lparr>Vertex_pos = p, Vertex_normal = n\<rparr>),
        vertexN := Suc (vertexN h)\<rparr>)"

definition Vertex_clone :: "nat \<Rightarrow> 's Heap \<Rightarrow> nat \<times> 's Heap" where
  "Vertex_clone this h =
     Vertex_new (Vertex_pos (vertexH h this)) (Vertex_normal (vertexH h this)) h"

definition Vertex_flip :: "nat \<Rightarrow> 's Heap \<Rightarrow> 's Heap" where
  "Vertex_flip this h =
     h\<lparr>vertexH := (vertexH h)
        (this := (vertexH h this)\<lparr>Vertex_normal := Vector_negated (Vertex_normal (vertexH h this))\<rparr>)\<rparr>"

definition Vertex_interpolate :: "nat \<Rightarrow> nat \<Rightarrow> real \<Rightarrow> 's Heap \<Rightarrow> nat \<times> 's Heap" where
  "Vertex_interpolate this other t h =
     Vertex_new (Vector_lerp (Vertex_pos (vertexH h this)) (Vertex_pos (vertexH h other)) t)
                (Vector_lerp (Vertex_normal (vertexH h this)) (Vertex_normal (vertexH h other)) t) h"

section \<open>class Plane\<close>

definition Plane_new :: "Vector \<Rightarrow> real \<Rightarrow> 's Heap \<Rightarrow> nat \<times> 's Heap" where
  "Plane_new n d h =
     (planeN h,
      h\<lparr>planeH := (planeH h)(planeN h := \<lparr>Plane_normal = n, Plane_w = d\<rparr>),
        planeN := Suc (planeN h)\<rparr>)"

definition Plane_EPSILON :: real where
  "Plane_EPSILON = 1 / 100000"

definition Plane_fromPoints :: "Vector \<Rightarrow> Vector \<Rightarrow> Vector \<Rightarrow> 's Heap \<Rightarrow> nat \<times> 's Heap" where
  "Plane_fromPoints a b c h =
     (let n = Vector_unit (Vector_cross (Vector_minus b a) (Vector_minus c a))
      in Plane_new n (Vector_dot n a) h)"

definition Plane_clone :: "nat \<Rightarrow> 's Heap \<Rightarrow> nat \<times> 's Heap" where
  "Plane_clone this h = Plane_new (Plane_normal (planeH h this)) (Plane_w (planeH h this)) h"

definition Plane_flip :: "nat \<Rightarrow> 's Heap \<Rightarrow> 's Heap" where
  "Plane_flip this h =
     h\<lparr>planeH := (planeH h)
        (this := \<lparr>Plane_normal = Vector_negated (Plane_normal (planeH h this)),
                  Plane_w = - Plane_w (planeH h this)\<rparr>)\<rparr>"

section \<open>class Polygon\<close>

text \<open>
  \<^verbatim>\<open>new T[]\<close> with the given elements: \<^verbatim>\<open>map\<close>, and the chains \<^verbatim>\<open>f\<close> and \<^verbatim>\<open>b\<close>
  of \<^verbatim>\<open>splitPolygon\<close> once they are complete.
\<close>

definition Array_new :: "nat list \<Rightarrow> 's Heap \<Rightarrow> nat \<times> 's Heap" where
  "Array_new vs h = (arrayN h, h\<lparr>arrayH := (arrayH h)(arrayN h := vs), arrayN := Suc (arrayN h)\<rparr>)"

text \<open>
  The constructor keeps the array it is given and derives the plane from the first three
  vertices. With fewer than three, \<^verbatim>\<open>vertices[k].pos\<close> reads a property of undefined.
\<close>

definition Polygon_new :: "nat \<Rightarrow> 's \<Rightarrow> 's Heap \<Rightarrow> (error + nat) \<times> 's Heap" where
  "Polygon_new a sh h =
     (let vs = arrayH h a in
      if length vs < 3 then (Inl TypeError, h)
      else
        let (pl, h1) = Plane_fromPoints (Vertex_pos (vertexH h (vs ! 0)))
                          (Vertex_pos (vertexH h (vs ! 1))) (Vertex_pos (vertexH h (vs ! 2))) h
        in (Inr (polygonN h1),
            h1\<lparr>polygonH := (polygonH h1)
                 (polygonN h1 := \<lparr>Polygon_vertices = a, Polygon_shared = sh, Polygon_plane = pl\<rparr>),
               polygonN := Suc (polygonN h1)\<rparr>))"

text \<open>\<^verbatim>\<open>this.vertices.map(function(v) { return v.clone(); })\<close>, left to right.\<close>

fun cloneVertices :: "nat list \<Rightarrow> 's Heap \<Rightarrow> nat list \<times> 's Heap" where
  "cloneVertices [] h = ([], h)"
| "cloneVertices (v # vs) h =
     (let (c, h1) = Vertex_clone v h; (cs, h2) = cloneVertices vs h1 in (c # cs, h2))"

definition Polygon_clone :: "nat \<Rightarrow> 's Heap \<Rightarrow> (error + nat) \<times> 's Heap" where
  "Polygon_clone this h =
     (let (cs, h1) = cloneVertices (arrayH h (Polygon_vertices (polygonH h this))) h;
          (a, h2) = Array_new cs h1
      in Polygon_new a (Polygon_shared (polygonH h2 this)) h2)"

text \<open>
  \<^verbatim>\<open>this.vertices.reverse().map(function(v) { v.flip(); }); this.plane.flip()\<close>:
  the array is reversed in place, then every entry of the reversed array is flipped.
\<close>

definition Polygon_flip :: "nat \<Rightarrow> 's Heap \<Rightarrow> 's Heap" where
  "Polygon_flip this h =
     (let a = Polygon_vertices (polygonH h this);
          h1 = h\<lparr>arrayH := (arrayH h)(a := rev (arrayH h a))\<rparr>;
          h2 = fold Vertex_flip (arrayH h1 a) h1
      in Plane_flip (Polygon_plane (polygonH h2 this)) h2)"

section \<open>Plane.splitPolygon\<close>

definition COPLANAR :: nat where "COPLANAR = 0"
definition FRONT :: nat where "FRONT = 1"
definition BACK :: nat where "BACK = 2"
definition SPANNING :: nat where "SPANNING = 3"

text \<open>The class of one point: the body of the first loop of \<^verbatim>\<open>splitPolygon\<close>.\<close>

definition vertexType :: "Plane \<Rightarrow> Vector \<Rightarrow> nat" where
  "vertexType this p =
     (let t = Vector_dot (Plane_normal this) p - Plane_w this
      in if t < - Plane_EPSILON then BACK else if t > Plane_EPSILON then FRONT else COPLANAR)"

text \<open>\<^verbatim>\<open>types\<close> and \<^verbatim>\<open>polygonType\<close> after the first loop.\<close>

definition vertexTypes :: "Plane \<Rightarrow> nat list \<Rightarrow> 's Heap \<Rightarrow> nat list" where
  "vertexTypes this vs h = map (\<lambda>v. vertexType this (Vertex_pos (vertexH h v))) vs"

definition polygonType :: "nat list \<Rightarrow> nat" where
  "polygonType types = foldl (OR) 0 types"

text \<open>
  The four arrays \<^verbatim>\<open>splitPolygon\<close> pushes onto are its caller's, and the callers pass one
  array for two parameters. The model returns the pushes in the order they happen, each
  with the parameter it goes to; the caller reads off what each of its arrays received.
\<close>

datatype target = CoplanarFront | CoplanarBack | Front | Back

definition pushed :: "target list \<Rightarrow> (target \<times> nat) list \<Rightarrow> nat list" where
  "pushed ts out = map snd (filter (\<lambda>e. fst e \<in> set ts) out)"

text \<open>
  The loop of the \<^verbatim>\<open>SPANNING\<close> case, over the indices still to visit: \<^verbatim>\<open>f\<close> and
  \<^verbatim>\<open>b\<close> are the chains so far. The loop allocates vertices and writes nothing else, so the
  plane, the vertex array and the types it reads are the ones read on entry.
\<close>

fun spanLoop :: "Plane \<Rightarrow> nat list \<Rightarrow> nat list \<Rightarrow> nat list \<Rightarrow> nat list \<Rightarrow> nat list \<Rightarrow> 's Heap
    \<Rightarrow> nat list \<times> nat list \<times> 's Heap" where
  "spanLoop this vs types [] f b h = (f, b, h)"
| "spanLoop this vs types (i # is) f b h =
     (let j = (i + 1) mod length vs;
          ti = types ! i; tj = types ! j;
          vi = vs ! i; vj = vs ! j;
          f1 = (if ti \<noteq> BACK then f @ [vi] else f);
          (b1, h1) = (if ti \<noteq> FRONT then
                        (if ti \<noteq> BACK then (let (c, h') = Vertex_clone vi h in (b @ [c], h'))
                         else (b @ [vi], h))
                      else (b, h));
          (f2, b2, h2) = (if (ti OR tj) = SPANNING then
                            (let t = (Plane_w this - Vector_dot (Plane_normal this) (Vertex_pos (vertexH h1 vi)))
                                     / Vector_dot (Plane_normal this)
                                         (Vector_minus (Vertex_pos (vertexH h1 vj)) (Vertex_pos (vertexH h1 vi)));
                                 (v, h') = Vertex_interpolate vi vj t h1;
                                 (c, h'') = Vertex_clone v h'
                             in (f1 @ [v], b1 @ [c], h''))
                          else (f1, b1, h1))
      in spanLoop this vs types is f2 b2 h2)"

text \<open>\<^verbatim>\<open>if (chain.length >= 3) out.push(new Polygon(chain, polygon.shared))\<close>.\<close>

definition pushChain :: "target \<Rightarrow> nat list \<Rightarrow> 's \<Rightarrow> 's Heap \<Rightarrow> (error + (target \<times> nat) list) \<times> 's Heap" where
  "pushChain tg chain sh h =
     (if length chain \<ge> 3 then
        (let (a, h1) = Array_new chain h in
         case Polygon_new a sh h1 of
           (Inl e, h2) \<Rightarrow> (Inl e, h2)
         | (Inr p, h2) \<Rightarrow> (Inr [(tg, p)], h2))
      else (Inr [], h))"

definition Plane_splitPolygon :: "nat \<Rightarrow> nat \<Rightarrow> 's Heap \<Rightarrow> (error + (target \<times> nat) list) \<times> 's Heap" where
  "Plane_splitPolygon this polygon h =
     (let pl = planeH h this;
          vs = arrayH h (Polygon_vertices (polygonH h polygon));
          types = vertexTypes pl vs h;
          pt = polygonType types
      in if pt = COPLANAR then
           (Inr [(if Vector_dot (Plane_normal pl)
                        (Plane_normal (planeH h (Polygon_plane (polygonH h polygon)))) > 0
                  then CoplanarFront else CoplanarBack, polygon)], h)
         else if pt = FRONT then (Inr [(Front, polygon)], h)
         else if pt = BACK then (Inr [(Back, polygon)], h)
         else if pt = SPANNING then
           (let (f, b, h1) = spanLoop pl vs types [0..<length vs] [] [] h in
            case pushChain Front f (Polygon_shared (polygonH h1 polygon)) h1 of
              (Inl e, h2) \<Rightarrow> (Inl e, h2)
            | (Inr o1, h2) \<Rightarrow>
                (case pushChain Back b (Polygon_shared (polygonH h2 polygon)) h2 of
                   (Inl e, h3) \<Rightarrow> (Inl e, h3)
                 | (Inr o2, h3) \<Rightarrow> (Inr (o1 @ o2), h3)))
         else (Inr [], h))"

section \<open>class Node\<close>

text \<open>
  The loop \<^verbatim>\<open>for (i...) this.plane.splitPolygon(polygons[i], ...)\<close> of
  \<^verbatim>\<open>clipPolygons\<close> and \<^verbatim>\<open>build\<close>: all pushes, in order.
\<close>

fun splitAll :: "nat \<Rightarrow> nat list \<Rightarrow> 's Heap \<Rightarrow> (error + (target \<times> nat) list) \<times> 's Heap" where
  "splitAll pl [] h = (Inr [], h)"
| "splitAll pl (p # ps) h =
     (case Plane_splitPolygon pl p h of
        (Inl e, h1) \<Rightarrow> (Inl e, h1)
      | (Inr o1, h1) \<Rightarrow>
          (case splitAll pl ps h1 of
             (Inl e, h2) \<Rightarrow> (Inl e, h2)
           | (Inr o2, h2) \<Rightarrow> (Inr (o1 @ o2), h2)))"

definition Node_empty :: Node where
  "Node_empty = Node None None None []"

text \<open>
  \<^verbatim>\<open>invert\<close>: the polygons are flipped first, then \<^verbatim>\<open>this.plane!.flip()\<close> reads a
  property of null when the node has no plane. When a call throws, the node it was working
  on is dropped with it (the operators do not catch).
\<close>

fun Node_invert :: "Node \<Rightarrow> 's Heap \<Rightarrow> (error + Node) \<times> 's Heap" where
  "Node_invert (Node pl fr bk ps) h =
     (let h1 = fold Polygon_flip ps h in
      case pl of
        None \<Rightarrow> (Inl TypeError, h1)
      | Some q \<Rightarrow>
          (let h2 = Plane_flip q h1 in
           case (case fr of
                   None \<Rightarrow> (Inr None, h2)
                 | Some n \<Rightarrow> (case Node_invert n h2 of
                                (Inl e, h') \<Rightarrow> (Inl e, h')
                              | (Inr n', h') \<Rightarrow> (Inr (Some n'), h'))) of
             (Inl e, h3) \<Rightarrow> (Inl e, h3)
           | (Inr fr', h3) \<Rightarrow>
               (case (case bk of
                        None \<Rightarrow> (Inr None, h3)
                      | Some n \<Rightarrow> (case Node_invert n h3 of
                                     (Inl e, h') \<Rightarrow> (Inl e, h')
                                   | (Inr n', h') \<Rightarrow> (Inr (Some n'), h'))) of
                  (Inl e, h4) \<Rightarrow> (Inl e, h4)
                | (Inr bk', h4) \<Rightarrow> (Inr (Node (Some q) bk' fr' ps), h4))))"

text \<open>
  \<^verbatim>\<open>clipPolygons\<close> passes \<^verbatim>\<open>front, back, front, back\<close>: its \<^verbatim>\<open>front\<close> receives
  the pushes to \<^verbatim>\<open>coplanarFront\<close> and \<^verbatim>\<open>front\<close>, its \<^verbatim>\<open>back\<close> those to
  \<^verbatim>\<open>coplanarBack\<close> and \<^verbatim>\<open>back\<close>.
\<close>

fun Node_clipPolygons :: "Node \<Rightarrow> nat list \<Rightarrow> 's Heap \<Rightarrow> (error + nat list) \<times> 's Heap" where
  "Node_clipPolygons (Node pl fr bk ps) polygons h =
     (case pl of
        None \<Rightarrow> (Inr polygons, h)
      | Some q \<Rightarrow>
          (case splitAll q polygons h of
             (Inl e, h1) \<Rightarrow> (Inl e, h1)
           | (Inr out, h1) \<Rightarrow>
               (case (case fr of
                        None \<Rightarrow> (Inr (pushed [CoplanarFront, Front] out), h1)
                      | Some n \<Rightarrow> Node_clipPolygons n (pushed [CoplanarFront, Front] out) h1) of
                  (Inl e, h2) \<Rightarrow> (Inl e, h2)
                | (Inr fs, h2) \<Rightarrow>
                    (case (case bk of
                             None \<Rightarrow> (Inr [], h2)
                           | Some n \<Rightarrow> Node_clipPolygons n (pushed [CoplanarBack, Back] out) h2) of
                       (Inl e, h3) \<Rightarrow> (Inl e, h3)
                     | (Inr bs, h3) \<Rightarrow> (Inr (fs @ bs), h3)))))"

fun Node_clipTo :: "Node \<Rightarrow> Node \<Rightarrow> 's Heap \<Rightarrow> (error + Node) \<times> 's Heap" where
  "Node_clipTo (Node pl fr bk ps) bsp h =
     (case Node_clipPolygons bsp ps h of
        (Inl e, h1) \<Rightarrow> (Inl e, h1)
      | (Inr ps', h1) \<Rightarrow>
          (case (case fr of
                   None \<Rightarrow> (Inr None, h1)
                 | Some n \<Rightarrow> (case Node_clipTo n bsp h1 of
                                (Inl e, h') \<Rightarrow> (Inl e, h')
                              | (Inr n', h') \<Rightarrow> (Inr (Some n'), h'))) of
             (Inl e, h2) \<Rightarrow> (Inl e, h2)
           | (Inr fr', h2) \<Rightarrow>
               (case (case bk of
                        None \<Rightarrow> (Inr None, h2)
                      | Some n \<Rightarrow> (case Node_clipTo n bsp h2 of
                                     (Inl e, h') \<Rightarrow> (Inl e, h')
                                   | (Inr n', h') \<Rightarrow> (Inr (Some n'), h'))) of
                  (Inl e, h3) \<Rightarrow> (Inl e, h3)
                | (Inr bk', h3) \<Rightarrow> (Inr (Node pl fr' bk' ps'), h3))))"

fun Node_allPolygons :: "Node \<Rightarrow> nat list" where
  "Node_allPolygons (Node pl fr bk ps) =
     ps @ (case fr of None \<Rightarrow> [] | Some n \<Rightarrow> Node_allPolygons n)
        @ (case bk of None \<Rightarrow> [] | Some n \<Rightarrow> Node_allPolygons n)"

text \<open>
  \<^verbatim>\<open>build\<close> recurses on the front and back lists, which need not be shorter than the
  list it was given, so the model counts the depth of the recursion: \<^term>\<open>None\<close> is a call
  that needs more than the given depth. \<^verbatim>\<open>build\<close> passes
  \<^verbatim>\<open>this.polygons, this.polygons, front, back\<close>.
\<close>

fun Node_build :: "nat \<Rightarrow> Node \<Rightarrow> nat list \<Rightarrow> 's Heap \<Rightarrow> ((error + Node) \<times> 's Heap) option" where
  "Node_build n this [] h = Some (Inr this, h)"
| "Node_build 0 this (p # ps) h = None"
| "Node_build (Suc n) (Node pl fr bk own) (p # ps) h =
     (let (q, h1) = (case pl of
                       None \<Rightarrow> Plane_clone (Polygon_plane (polygonH h p)) h
                     | Some q \<Rightarrow> (q, h))
      in case splitAll q (p # ps) h1 of
           (Inl e, h2) \<Rightarrow> Some (Inl e, h2)
         | (Inr out, h2) \<Rightarrow>
             (case (if pushed [Front] out \<noteq> [] then
                      (case Node_build n (case fr of None \<Rightarrow> Node_empty | Some c \<Rightarrow> c)
                              (pushed [Front] out) h2 of
                         None \<Rightarrow> None
                       | Some (Inl e, h') \<Rightarrow> Some (Inl e, h')
                       | Some (Inr c, h') \<Rightarrow> Some (Inr (Some c), h'))
                    else Some (Inr fr, h2)) of
                None \<Rightarrow> None
              | Some (Inl e, h3) \<Rightarrow> Some (Inl e, h3)
              | Some (Inr fr', h3) \<Rightarrow>
                  (case (if pushed [Back] out \<noteq> [] then
                           (case Node_build n (case bk of None \<Rightarrow> Node_empty | Some c \<Rightarrow> c)
                                   (pushed [Back] out) h3 of
                              None \<Rightarrow> None
                            | Some (Inl e, h') \<Rightarrow> Some (Inl e, h')
                            | Some (Inr c, h') \<Rightarrow> Some (Inr (Some c), h'))
                         else Some (Inr bk, h3)) of
                     None \<Rightarrow> None
                   | Some (Inl e, h4) \<Rightarrow> Some (Inl e, h4)
                   | Some (Inr bk', h4) \<Rightarrow>
                       Some (Inr (Node (Some q) fr' bk'
                                   (own @ pushed [CoplanarFront, CoplanarBack] out)), h4))))"

text \<open>\<^verbatim>\<open>new Node(polygons)\<close>; \<^verbatim>\<open>new Node()\<close> is \<^term>\<open>Node_empty\<close>.\<close>

definition Node_new :: "nat \<Rightarrow> nat list \<Rightarrow> 's Heap \<Rightarrow> ((error + Node) \<times> 's Heap) option" where
  "Node_new n polygons h = Node_build n Node_empty polygons h"

section \<open>class CSG\<close>

definition CSG_fromPolygons :: "nat list \<Rightarrow> CSG" where
  "CSG_fromPolygons polygons = \<lparr>CSG_polygons = polygons\<rparr>"

text \<open>\<^verbatim>\<open>this.polygons.map(function(p) { return p.clone(); })\<close>, left to right.\<close>

fun clonePolygons :: "nat list \<Rightarrow> 's Heap \<Rightarrow> (error + nat list) \<times> 's Heap" where
  "clonePolygons [] h = (Inr [], h)"
| "clonePolygons (p # ps) h =
     (case Polygon_clone p h of
        (Inl e, h1) \<Rightarrow> (Inl e, h1)
      | (Inr c, h1) \<Rightarrow>
          (case clonePolygons ps h1 of
             (Inl e, h2) \<Rightarrow> (Inl e, h2)
           | (Inr cs, h2) \<Rightarrow> (Inr (c # cs), h2)))"

definition CSG_clone :: "CSG \<Rightarrow> 's Heap \<Rightarrow> (error + CSG) \<times> 's Heap" where
  "CSG_clone this h =
     (case clonePolygons (CSG_polygons this) h of
        (Inl e, h1) \<Rightarrow> (Inl e, h1)
      | (Inr ps, h1) \<Rightarrow> (Inr \<lparr>CSG_polygons = ps\<rparr>, h1))"

definition CSG_toPolygons :: "CSG \<Rightarrow> nat list" where
  "CSG_toPolygons this = CSG_polygons this"

text \<open>
  Sequencing for the operators: a step that throws or needs more depth ends the call; the
  store goes from each step to the next.
\<close>

definition andThen :: "(('e + 'a) \<times> 'h) option \<Rightarrow> ('a \<Rightarrow> 'h \<Rightarrow> (('e + 'b) \<times> 'h) option)
    \<Rightarrow> (('e + 'b) \<times> 'h) option" where
  "andThen m f = (case m of
                    None \<Rightarrow> None
                  | Some (Inl e, h) \<Rightarrow> Some (Inl e, h)
                  | Some (Inr a, h) \<Rightarrow> f a h)"

definition CSG_union :: "nat \<Rightarrow> CSG \<Rightarrow> CSG \<Rightarrow> 's Heap \<Rightarrow> ((error + CSG) \<times> 's Heap) option" where
  "CSG_union n this csg h0 =
     andThen (Some (CSG_clone this h0)) (\<lambda>c1 h.
     andThen (Node_new n (CSG_polygons c1) h) (\<lambda>a h.
     andThen (Some (CSG_clone csg h)) (\<lambda>c2 h.
     andThen (Node_new n (CSG_polygons c2) h) (\<lambda>b h.
     andThen (Some (Node_clipTo a b h)) (\<lambda>a h.
     andThen (Some (Node_clipTo b a h)) (\<lambda>b h.
     andThen (Some (Node_invert b h)) (\<lambda>b h.
     andThen (Some (Node_clipTo b a h)) (\<lambda>b h.
     andThen (Some (Node_invert b h)) (\<lambda>b h.
     andThen (Node_build n a (Node_allPolygons b) h) (\<lambda>a h.
     Some (Inr (CSG_fromPolygons (Node_allPolygons a)), h)))))))))))"

definition CSG_subtract :: "nat \<Rightarrow> CSG \<Rightarrow> CSG \<Rightarrow> 's Heap \<Rightarrow> ((error + CSG) \<times> 's Heap) option" where
  "CSG_subtract n this csg h0 =
     andThen (Some (CSG_clone this h0)) (\<lambda>c1 h.
     andThen (Node_new n (CSG_polygons c1) h) (\<lambda>a h.
     andThen (Some (CSG_clone csg h)) (\<lambda>c2 h.
     andThen (Node_new n (CSG_polygons c2) h) (\<lambda>b h.
     andThen (Some (Node_invert a h)) (\<lambda>a h.
     andThen (Some (Node_clipTo a b h)) (\<lambda>a h.
     andThen (Some (Node_clipTo b a h)) (\<lambda>b h.
     andThen (Some (Node_invert b h)) (\<lambda>b h.
     andThen (Some (Node_clipTo b a h)) (\<lambda>b h.
     andThen (Some (Node_invert b h)) (\<lambda>b h.
     andThen (Node_build n a (Node_allPolygons b) h) (\<lambda>a h.
     andThen (Some (Node_invert a h)) (\<lambda>a h.
     Some (Inr (CSG_fromPolygons (Node_allPolygons a)), h)))))))))))))"

definition CSG_intersect :: "nat \<Rightarrow> CSG \<Rightarrow> CSG \<Rightarrow> 's Heap \<Rightarrow> ((error + CSG) \<times> 's Heap) option" where
  "CSG_intersect n this csg h0 =
     andThen (Some (CSG_clone this h0)) (\<lambda>c1 h.
     andThen (Node_new n (CSG_polygons c1) h) (\<lambda>a h.
     andThen (Some (CSG_clone csg h)) (\<lambda>c2 h.
     andThen (Node_new n (CSG_polygons c2) h) (\<lambda>b h.
     andThen (Some (Node_invert a h)) (\<lambda>a h.
     andThen (Some (Node_clipTo b a h)) (\<lambda>b h.
     andThen (Some (Node_invert b h)) (\<lambda>b h.
     andThen (Some (Node_clipTo a b h)) (\<lambda>a h.
     andThen (Some (Node_clipTo b a h)) (\<lambda>b h.
     andThen (Node_build n a (Node_allPolygons b) h) (\<lambda>a h.
     andThen (Some (Node_invert a h)) (\<lambda>a h.
     Some (Inr (CSG_fromPolygons (Node_allPolygons a)), h))))))))))))"

definition CSG_inverse :: "CSG \<Rightarrow> 's Heap \<Rightarrow> (error + CSG) \<times> 's Heap" where
  "CSG_inverse this h =
     (case CSG_clone this h of
        (Inl e, h1) \<Rightarrow> (Inl e, h1)
      | (Inr csg, h1) \<Rightarrow> (Inr csg, fold Polygon_flip (CSG_polygons csg) h1))"

section \<open>A store for the examples\<close>

text \<open>
  Five polygons around the plane \<open>x = 0\<close> (plane 0, normal \<open>(1, 0, 0)\<close>): a triangle at
  \<open>x = 1\<close>, a square in the plane \<open>z = 0\<close> that straddles \<open>x = 0\<close>, two triangles in the
  plane \<open>x = 0\<close> itself, one facing each way, and a triangle at \<open>x = -1\<close>. Each polygon
  has the plane its constructor derives from its first three vertices.
\<close>

definition cells :: "'a \<Rightarrow> 'a list \<Rightarrow> nat \<Rightarrow> 'a" where
  "cells d xs i = (if i < length xs then xs ! i else d)"

definition vtx :: "real \<Rightarrow> real \<Rightarrow> real \<Rightarrow> real \<Rightarrow> real \<Rightarrow> real \<Rightarrow> Vertex" where
  "vtx a b c d e f = \<lparr>Vertex_pos = Vector_new a b c, Vertex_normal = Vector_new d e f\<rparr>"

definition pln :: "real \<Rightarrow> real \<Rightarrow> real \<Rightarrow> real \<Rightarrow> Plane" where
  "pln a b c d = \<lparr>Plane_normal = Vector_new a b c, Plane_w = d\<rparr>"

definition pgn :: "nat \<Rightarrow> 's \<Rightarrow> nat \<Rightarrow> 's Polygon" where
  "pgn a sh p = \<lparr>Polygon_vertices = a, Polygon_shared = sh, Polygon_plane = p\<rparr>"

definition exampleHeap :: "nat Heap" where
  "exampleHeap =
     \<lparr>vertexH = cells (vtx 0 0 0 0 0 0)
        [vtx 1 0 0 1 0 0, vtx 1 1 0 1 0 0, vtx 1 0 1 1 0 0,
         vtx (-1) 1 0 0 0 1, vtx (-1) (-1) 0 0 0 1, vtx 1 (-1) 0 0 0 1, vtx 1 1 0 0 0 1,
         vtx 0 0 0 (-1) 0 0, vtx 0 0 1 (-1) 0 0, vtx 0 1 0 (-1) 0 0,
         vtx 0 0 0 1 0 0, vtx 0 1 0 1 0 0, vtx 0 0 1 1 0 0,
         vtx (-1) 0 0 1 0 0, vtx (-1) 1 0 1 0 0, vtx (-1) 0 1 1 0 0],
      vertexN = 16,
      arrayH = cells [] [[0, 1, 2], [3, 4, 5, 6], [7, 8, 9], [10, 11, 12], [13, 14, 15]],
      arrayN = 5,
      planeH = cells (pln 0 0 0 0)
        [pln 1 0 0 0, pln 1 0 0 1, pln 0 0 1 0, pln (-1) 0 0 0, pln 1 0 0 0, pln 1 0 0 (-1)],
      planeN = 6,
      polygonH = cells (pgn 0 0 0) [pgn 0 20 1, pgn 1 21 2, pgn 2 22 3, pgn 3 23 4, pgn 4 24 5],
      polygonN = 5\<rparr>"

section \<open>Vocabulary of the statements\<close>




text \<open>
  What \<^verbatim>\<open>flip\<close> does to one vertex and to one plane, as values.
\<close>

definition flipVertex :: "Vertex \<Rightarrow> Vertex" where
  "flipVertex v = v\<lparr>Vertex_normal := Vector_negated (Vertex_normal v)\<rparr>"

definition flipPlane :: "Plane \<Rightarrow> Plane" where
  "flipPlane p = \<lparr>Plane_normal = Vector_negated (Plane_normal p), Plane_w = - Plane_w p\<rparr>"

text \<open>
  The store after a number of flips: every array reversed, every vertex and every plane
  flipped as many times as the multisets count it. Only the parity matters.
\<close>

definition applyFlips :: "nat multiset \<Rightarrow> nat multiset \<Rightarrow> nat multiset \<Rightarrow> 's Heap \<Rightarrow> 's Heap" where
  "applyFlips A V P h =
     h\<lparr>vertexH := (\<lambda>v. if odd (count V v) then flipVertex (vertexH h v) else vertexH h v),
       arrayH := (\<lambda>a. if odd (count A a) then rev (arrayH h a) else arrayH h a),
       planeH := (\<lambda>q. if odd (count P q) then flipPlane (planeH h q) else planeH h q)\<rparr>"

text \<open>The arrays, vertices and planes that flipping each polygon of a list touches.\<close>

definition polyArrays :: "'s Heap \<Rightarrow> nat list \<Rightarrow> nat multiset" where
  "polyArrays h ps = image_mset (\<lambda>p. Polygon_vertices (polygonH h p)) (mset ps)"

definition polyVertices :: "'s Heap \<Rightarrow> nat list \<Rightarrow> nat multiset" where
  "polyVertices h ps =
     sum_mset (image_mset (\<lambda>p. mset (arrayH h (Polygon_vertices (polygonH h p)))) (mset ps))"

definition polyPlanes :: "'s Heap \<Rightarrow> nat list \<Rightarrow> nat multiset" where
  "polyPlanes h ps = image_mset (\<lambda>p. Polygon_plane (polygonH h p)) (mset ps)"

text \<open>The planes of the nodes of a tree, and the tree with front and back swapped at every node.\<close>

fun nodePlanes :: "Node \<Rightarrow> nat multiset" where
  "nodePlanes (Node pl fr bk ps) =
     (case pl of None \<Rightarrow> {#} | Some q \<Rightarrow> {#q#})
     + (case fr of None \<Rightarrow> {#} | Some n \<Rightarrow> nodePlanes n)
     + (case bk of None \<Rightarrow> {#} | Some n \<Rightarrow> nodePlanes n)"

fun mirror :: "Node \<Rightarrow> Node" where
  "mirror (Node pl fr bk ps) =
     Node pl (case bk of None \<Rightarrow> None | Some n \<Rightarrow> Some (mirror n))
             (case fr of None \<Rightarrow> None | Some n \<Rightarrow> Some (mirror n)) ps"

text \<open>Every node of the tree has a plane.\<close>

fun hasPlanes :: "Node \<Rightarrow> bool" where
  "hasPlanes (Node pl fr bk ps) =
     (pl \<noteq> None \<and> (case fr of None \<Rightarrow> True | Some n \<Rightarrow> hasPlanes n)
               \<and> (case bk of None \<Rightarrow> True | Some n \<Rightarrow> hasPlanes n))"

text \<open>The positions of the vertices of a polygon, in order.\<close>

definition polygonPositions :: "'s Heap \<Rightarrow> nat \<Rightarrow> Vector list" where
  "polygonPositions h p =
     map (\<lambda>v. Vertex_pos (vertexH h v)) (arrayH h (Polygon_vertices (polygonH h p)))"

text \<open>
  What is known after a call: \<open>Q\<close> of the result and the store when it returns, \<open>E\<close> of
  the store when it throws; nothing of a call that needs more depth.
\<close>

definition post :: "('a \<Rightarrow> 'h \<Rightarrow> bool) \<Rightarrow> ('h \<Rightarrow> bool) \<Rightarrow> (error + 'a) \<times> 'h \<Rightarrow> bool" where
  "post Q E r = (case r of (Inl e, h) \<Rightarrow> E h | (Inr a, h) \<Rightarrow> Q a h)"

definition postF :: "('a \<Rightarrow> 'h \<Rightarrow> bool) \<Rightarrow> ('h \<Rightarrow> bool) \<Rightarrow> ((error + 'a) \<times> 'h) option \<Rightarrow> bool" where
  "postF Q E r = (case r of None \<Rightarrow> True | Some x \<Rightarrow> post Q E x)"

text \<open>
  The step of \<^verbatim>\<open>build\<close> for one child:
  \<^verbatim>\<open>if (list.length) { if (!child) child = new Node(); child.build(list); }\<close>.
\<close>

definition buildChild :: "nat \<Rightarrow> Node option \<Rightarrow> nat list \<Rightarrow> 's Heap
    \<Rightarrow> ((error + Node option) \<times> 's Heap) option" where
  "buildChild n c qs h =
     (if qs \<noteq> [] then
        (case Node_build n (case c of None \<Rightarrow> Node_empty | Some c \<Rightarrow> c) qs h of
           None \<Rightarrow> None
         | Some (Inl e, h') \<Rightarrow> Some (Inl e, h')
         | Some (Inr c, h') \<Rightarrow> Some (Inr (Some c), h'))
      else Some (Inr c, h))"

text \<open>
  The frame of a call that starts in the store \<open>h0\<close>. Every object of \<open>h0\<close> is in \<open>h\<close>
  with the content it had; and what was allocated since refers only to what was allocated
  since: a new polygon has a new array and a new plane, a new array holds new vertices.
\<close>

definition unchangedFrom :: "'s Heap \<Rightarrow> 's Heap \<Rightarrow> bool" where
  "unchangedFrom h0 h =
     (vertexN h0 \<le> vertexN h \<and> arrayN h0 \<le> arrayN h \<and> planeN h0 \<le> planeN h
      \<and> polygonN h0 \<le> polygonN h
      \<and> (\<forall>v<vertexN h0. vertexH h v = vertexH h0 v)
      \<and> (\<forall>a<arrayN h0. arrayH h a = arrayH h0 a)
      \<and> (\<forall>q<planeN h0. planeH h q = planeH h0 q)
      \<and> (\<forall>p<polygonN h0. polygonH h p = polygonH h0 p))"

definition newClosed :: "'s Heap \<Rightarrow> 's Heap \<Rightarrow> bool" where
  "newClosed h0 h =
     ((\<forall>p. polygonN h0 \<le> p \<and> p < polygonN h \<longrightarrow>
          arrayN h0 \<le> Polygon_vertices (polygonH h p)
          \<and> Polygon_vertices (polygonH h p) < arrayN h
          \<and> planeN h0 \<le> Polygon_plane (polygonH h p))
      \<and> (\<forall>a. arrayN h0 \<le> a \<and> a < arrayN h \<longrightarrow> (\<forall>v\<in>set (arrayH h a). vertexN h0 \<le> v)))"

definition frameInv :: "'s Heap \<Rightarrow> 's Heap \<Rightarrow> bool" where
  "frameInv h0 h = (unchangedFrom h0 h \<and> newClosed h0 h)"

definition newPolygons :: "'s Heap \<Rightarrow> 's Heap \<Rightarrow> nat list \<Rightarrow> bool" where
  "newPolygons h0 h ps = (\<forall>p\<in>set ps. polygonN h0 \<le> p \<and> p < polygonN h)"

definition newTree :: "'s Heap \<Rightarrow> 's Heap \<Rightarrow> Node \<Rightarrow> bool" where
  "newTree h0 h t =
     (newPolygons h0 h (Node_allPolygons t) \<and> (\<forall>q\<in>#nodePlanes t. planeN h0 \<le> q))"

definition after :: "'s Heap \<Rightarrow> 's Heap \<Rightarrow> 's Heap \<Rightarrow> bool" where
  "after h0 h h' = (frameInv h0 h' \<and> polygonN h \<le> polygonN h')"

text \<open>
  What a solid is, read through its references: for each polygon its vertices, its plane
  and its tag. A solid is allocated when all it refers to is.
\<close>

definition polygonValue :: "'s Heap \<Rightarrow> nat \<Rightarrow> Vertex list \<times> Plane \<times> 's" where
  "polygonValue h p =
     (map (vertexH h) (arrayH h (Polygon_vertices (polygonH h p))),
      planeH h (Polygon_plane (polygonH h p)),
      Polygon_shared (polygonH h p))"

definition solidValue :: "'s Heap \<Rightarrow> CSG \<Rightarrow> (Vertex list \<times> Plane \<times> 's) list" where
  "solidValue h csg = map (polygonValue h) (CSG_polygons csg)"

definition allocatedSolid :: "'s Heap \<Rightarrow> CSG \<Rightarrow> bool" where
  "allocatedSolid h csg =
     (\<forall>p\<in>set (CSG_polygons csg).
        p < polygonN h \<and> Polygon_vertices (polygonH h p) < arrayN h
        \<and> Polygon_plane (polygonH h p) < planeN h
        \<and> (\<forall>v\<in>set (arrayH h (Polygon_vertices (polygonH h p))). v < vertexN h))"

text \<open>Both trees of an operator hold only polygons and planes allocated since \<open>h0\<close>.\<close>

definition treesNew :: "'s Heap \<Rightarrow> 's Heap \<Rightarrow> Node \<Rightarrow> Node \<Rightarrow> bool" where
  "treesNew h0 h a b = (frameInv h0 h \<and> newTree h0 h a \<and> newTree h0 h b)"




text \<open>
  A second example store: polygon 0 is a quadrilateral in the plane \<open>z = 0\<close> that is not
  convex (the loop turns right at its third vertex \<open>(1, 1, 0)\<close>), polygon 1 a triangle in the
  same plane. Both have the plane their constructor derives: normal \<open>(0, 0, 1)\<close>, \<open>w = 0\<close>.
\<close>

definition dartHeap :: "nat Heap" where
  "dartHeap =
     \<lparr>vertexH = cells (vtx 0 0 0 0 0 0)
        [vtx 0 0 0 0 0 1, vtx 2 0 0 0 0 1, vtx 1 1 0 0 0 1, vtx 2 3 0 0 0 1,
         vtx 5 0 0 0 0 1, vtx 6 0 0 0 0 1, vtx 5 1 0 0 0 1],
      vertexN = 7,
      arrayH = cells [] [[0, 1, 2, 3], [4, 5, 6]],
      arrayN = 2,
      planeH = cells (pln 0 0 0 0) [pln 0 0 1 0, pln 0 0 1 0],
      planeN = 2,
      polygonH = cells (pgn 0 0 0) [pgn 0 30 0, pgn 1 31 1],
      polygonN = 2\<rparr>"


text \<open>A type code has the bit of \<^verbatim>\<open>FRONT\<close>, of \<^verbatim>\<open>BACK\<close>.\<close>

definition hasFront :: "nat \<Rightarrow> bool" where
  "hasFront a = (a = 1 \<or> a = 3)"

definition hasBack :: "nat \<Rightarrow> bool" where
  "hasBack a = (a = 2 \<or> a = 3)"

section \<open>Lemmas on the type codes\<close>

lemma or_table:
  "(0::nat) OR 0 = 0" "(0::nat) OR 1 = 1" "(0::nat) OR 2 = 2"
  "(1::nat) OR 0 = 1" "(1::nat) OR 1 = 1" "(1::nat) OR 2 = 3"
  "(2::nat) OR 0 = 2" "(2::nat) OR 1 = 3" "(2::nat) OR 2 = 2"
  "(3::nat) OR 0 = 3" "(3::nat) OR 1 = 3" "(3::nat) OR 2 = 3"
  by simp_all

lemma or_step:
  assumes "a = 0 \<or> a = 1 \<or> a = 2 \<or> a = (3::nat)" "t = 0 \<or> t = 1 \<or> t = (2::nat)"
  shows "(a OR t = 0 \<or> a OR t = 1 \<or> a OR t = 2 \<or> a OR t = 3)
       \<and> (hasFront (a OR t) = (hasFront a \<or> t = 1)) \<and> (hasBack (a OR t) = (hasBack a \<or> t = 2))"
  using assms by (elim disjE) (simp_all add: or_table hasFront_def hasBack_def)

lemma foldl_or_codes:
  "\<forall>t\<in>set ts. t = 0 \<or> t = 1 \<or> t = (2::nat) \<Longrightarrow> a = 0 \<or> a = 1 \<or> a = 2 \<or> a = (3::nat) \<Longrightarrow>
   (foldl (OR) a ts = 0 \<or> foldl (OR) a ts = 1 \<or> foldl (OR) a ts = 2 \<or> foldl (OR) a ts = 3)
   \<and> hasFront (foldl (OR) a ts) = (hasFront a \<or> 1 \<in> set ts)
   \<and> hasBack (foldl (OR) a ts) = (hasBack a \<or> 2 \<in> set ts)"
proof (induction ts arbitrary: a)
  case Nil
  then show ?case by simp
next
  case (Cons t ts)
  have t: "t = 0 \<or> t = 1 \<or> t = 2" using Cons.prems(1) by simp
  note st = or_step[OF Cons.prems(2) t]
  have ih: "(foldl (OR) (a OR t) ts = 0 \<or> foldl (OR) (a OR t) ts = 1
               \<or> foldl (OR) (a OR t) ts = 2 \<or> foldl (OR) (a OR t) ts = 3)
   \<and> hasFront (foldl (OR) (a OR t) ts) = (hasFront (a OR t) \<or> 1 \<in> set ts)
   \<and> hasBack (foldl (OR) (a OR t) ts) = (hasBack (a OR t) \<or> 2 \<in> set ts)"
    using Cons.IH[of "a OR t"] Cons.prems(1) st by simp
  show ?case using ih st by (simp add: eq_commute[of 1 t] eq_commute[of 2 t]) blast
qed

lemma vertexType_cases: "vertexType pl p = 0 \<or> vertexType pl p = 1 \<or> vertexType pl p = 2"
  by (simp add: vertexType_def Let_def COPLANAR_def FRONT_def BACK_def)

lemma polygonType_codes:
  fixes h :: "'s Heap" and pl vs
  defines "pt \<equiv> polygonType (vertexTypes pl vs h)"
  shows "(pt = 0 \<or> pt = 1 \<or> pt = 2 \<or> pt = 3)
     \<and> (hasFront pt = (1 \<in> set (vertexTypes pl vs h)))
     \<and> (hasBack pt = (2 \<in> set (vertexTypes pl vs h)))"
proof -
  have "\<forall>t\<in>set (vertexTypes pl vs h). t = 0 \<or> t = 1 \<or> t = 2"
    unfolding vertexTypes_def using vertexType_cases by simp
  from foldl_or_codes[OF this, of 0] show ?thesis
    unfolding pt_def polygonType_def by (simp add: hasFront_def[of 0] hasBack_def[of 0])
qed

lemmas example_defs = exampleHeap_def cells_def vtx_def pln_def pgn_def
lemmas Vector_defs = Vector_new_def Vector_negated_def Vector_plus_def Vector_minus_def
  Vector_times_def Vector_dividedBy_def Vector_dot_def Vector_lerp_def Vector_length_def
  Vector_unit_def Vector_cross_def
lemmas code_defs = COPLANAR_def FRONT_def BACK_def SPANNING_def

section \<open>The example store, evaluated\<close>

lemma ex_types:
  "vertexTypes (planeH exampleHeap 0) (arrayH exampleHeap (Polygon_vertices (polygonH exampleHeap 0))) exampleHeap = [1, 1, 1]"
  "vertexTypes (planeH exampleHeap 0) (arrayH exampleHeap (Polygon_vertices (polygonH exampleHeap 1))) exampleHeap = [2, 2, 1, 1]"
  "vertexTypes (planeH exampleHeap 0) (arrayH exampleHeap (Polygon_vertices (polygonH exampleHeap 2))) exampleHeap = [0, 0, 0]"
  "vertexTypes (planeH exampleHeap 0) (arrayH exampleHeap (Polygon_vertices (polygonH exampleHeap 3))) exampleHeap = [0, 0, 0]"
  "vertexTypes (planeH exampleHeap 0) (arrayH exampleHeap (Polygon_vertices (polygonH exampleHeap 4))) exampleHeap = [2, 2, 2]"
  by (simp_all add: example_defs vertexTypes_def vertexType_def Vector_defs Plane_EPSILON_def code_defs)

lemma ex_ptypes:
  "polygonType [1, 1, 1] = FRONT" "polygonType [2, 2, 1, 1] = SPANNING" "polygonType [0, 0, 0] = COPLANAR"
  "polygonType [2, 2, 2] = BACK"
  by (simp_all add: polygonType_def code_defs)

lemma ex_polygonTypes:
  "polygonType (vertexTypes (planeH exampleHeap 0) (arrayH exampleHeap (Polygon_vertices (polygonH exampleHeap 0))) exampleHeap) = FRONT"
  "polygonType (vertexTypes (planeH exampleHeap 0) (arrayH exampleHeap (Polygon_vertices (polygonH exampleHeap 1))) exampleHeap) = SPANNING"
  "polygonType (vertexTypes (planeH exampleHeap 0) (arrayH exampleHeap (Polygon_vertices (polygonH exampleHeap 2))) exampleHeap) = COPLANAR"
  "polygonType (vertexTypes (planeH exampleHeap 0) (arrayH exampleHeap (Polygon_vertices (polygonH exampleHeap 3))) exampleHeap) = COPLANAR"
  "polygonType (vertexTypes (planeH exampleHeap 0) (arrayH exampleHeap (Polygon_vertices (polygonH exampleHeap 4))) exampleHeap) = BACK"
  by (simp_all only: ex_types ex_ptypes)

section \<open>Plane.splitPolygon: classification\<close>

text \<open>
  Claim C4. \<^verbatim>\<open>splitPolygon\<close> gives each vertex the code \<^verbatim>\<open>BACK\<close> (2) when
  \<open>t = normal \<cdot> pos - w\<close> is below \<open>-EPSILON\<close>, \<^verbatim>\<open>FRONT\<close> (1) when it is above
  \<open>EPSILON\<close>, and \<^verbatim>\<open>COPLANAR\<close> (0) otherwise, with \<open>EPSILON = 1e-5\<close>. The type of the
  polygon is the bitwise or of the codes of its vertices, one of 0, 1, 2 and 3
  (\<^verbatim>\<open>SPANNING\<close>), and it says which codes occur. A polygon that is not spanning is pushed
  whole, once, onto one array, and the store is left as it was: onto \<^verbatim>\<open>front\<close> or
  \<^verbatim>\<open>back\<close> by its type, and a wholly coplanar one onto \<^verbatim>\<open>coplanarFront\<close> exactly when
  the dot product of the two plane normals is positive, otherwise onto \<^verbatim>\<open>coplanarBack\<close>.
\<close>

theorem splitPolygon_classifies:
  fixes h :: "'s Heap" and this polygon :: nat
  defines "pl \<equiv> planeH h this"
  defines "vs \<equiv> arrayH h (Polygon_vertices (polygonH h polygon))"
  defines "types \<equiv> vertexTypes pl vs h"
  defines "pt \<equiv> polygonType types"
  shows "COPLANAR = 0 \<and> FRONT = 1 \<and> BACK = 2 \<and> SPANNING = 3 \<and> Plane_EPSILON = 1 / 100000
    \<and> length types = length vs
    \<and> (\<forall>i<length vs. types ! i =
          (let t = Vector_dot (Plane_normal pl) (Vertex_pos (vertexH h (vs ! i))) - Plane_w pl
           in if t < - Plane_EPSILON then BACK else if t > Plane_EPSILON then FRONT else COPLANAR))
    \<and> pt = foldl (OR) 0 types
    \<and> (pt = COPLANAR \<or> pt = FRONT \<or> pt = BACK \<or> pt = SPANNING)
    \<and> (pt = COPLANAR \<longleftrightarrow> FRONT \<notin> set types \<and> BACK \<notin> set types)
    \<and> (pt = FRONT \<longleftrightarrow> FRONT \<in> set types \<and> BACK \<notin> set types)
    \<and> (pt = BACK \<longleftrightarrow> FRONT \<notin> set types \<and> BACK \<in> set types)
    \<and> (pt = SPANNING \<longleftrightarrow> FRONT \<in> set types \<and> BACK \<in> set types)
    \<and> (pt = COPLANAR \<longrightarrow> Plane_splitPolygon this polygon h =
          (Inr [(if Vector_dot (Plane_normal pl)
                      (Plane_normal (planeH h (Polygon_plane (polygonH h polygon)))) > 0
                 then CoplanarFront else CoplanarBack, polygon)], h))
    \<and> (pt = FRONT \<longrightarrow> Plane_splitPolygon this polygon h = (Inr [(Front, polygon)], h))
    \<and> (pt = BACK \<longrightarrow> Plane_splitPolygon this polygon h = (Inr [(Back, polygon)], h))"
proof -
  note c = polygonType_codes[of pl vs h, folded types_def, folded pt_def]
  have codes: "pt = 0 \<or> pt = 1 \<or> pt = 2 \<or> pt = 3" using c by simp
  have f: "hasFront pt = (1 \<in> set types)" and b: "hasBack pt = (2 \<in> set types)" using c by simp_all
  have k: "(pt = 0 \<longleftrightarrow> 1 \<notin> set types \<and> 2 \<notin> set types)" "(pt = 1 \<longleftrightarrow> 1 \<in> set types \<and> 2 \<notin> set types)"
      "(pt = 2 \<longleftrightarrow> 1 \<notin> set types \<and> 2 \<in> set types)" "(pt = 3 \<longleftrightarrow> 1 \<in> set types \<and> 2 \<in> set types)"
    using codes f b unfolding hasFront_def hasBack_def by auto
  have ty: "\<forall>i<length vs. types ! i =
          (let t = Vector_dot (Plane_normal pl) (Vertex_pos (vertexH h (vs ! i))) - Plane_w pl
           in if t < - Plane_EPSILON then BACK else if t > Plane_EPSILON then FRONT else COPLANAR)"
    by (simp add: types_def vertexTypes_def vertexType_def)
  have s0: "pt = COPLANAR \<longrightarrow> Plane_splitPolygon this polygon h =
          (Inr [(if Vector_dot (Plane_normal pl)
                      (Plane_normal (planeH h (Polygon_plane (polygonH h polygon)))) > 0
                 then CoplanarFront else CoplanarBack, polygon)], h)"
    unfolding pt_def types_def vs_def pl_def by (simp add: Plane_splitPolygon_def Let_def)
  have s1: "pt = FRONT \<longrightarrow> Plane_splitPolygon this polygon h = (Inr [(Front, polygon)], h)"
    unfolding pt_def types_def vs_def pl_def by (simp add: Plane_splitPolygon_def Let_def code_defs)
  have s2: "pt = BACK \<longrightarrow> Plane_splitPolygon this polygon h = (Inr [(Back, polygon)], h)"
    unfolding pt_def types_def vs_def pl_def by (simp add: Plane_splitPolygon_def Let_def code_defs)
  have len: "length types = length vs" by (simp add: types_def vertexTypes_def)
  have pt: "pt = foldl (OR) 0 types" by (simp add: pt_def polygonType_def)
  show ?thesis
    using codes k ty s0 s1 s2 len pt
    by (simp add: code_defs Plane_EPSILON_def)
qed


text \<open>
  The theorem at the example store, plane 0: the triangle at \<open>x = 1\<close> goes to the front,
  the one at \<open>x = -1\<close> to the back, the two in the plane to the coplanar array of their
  orientation.
\<close>

theorem splitPolygon_classifies_witness:
  "Plane_splitPolygon 0 0 exampleHeap = (Inr [(Front, 0)], exampleHeap)
   \<and> Plane_splitPolygon 0 2 exampleHeap = (Inr [(CoplanarBack, 2)], exampleHeap)
   \<and> Plane_splitPolygon 0 3 exampleHeap = (Inr [(CoplanarFront, 3)], exampleHeap)
   \<and> Plane_splitPolygon 0 4 exampleHeap = (Inr [(Back, 4)], exampleHeap)"
proof -
  have d2: "\<not> Vector_dot (Plane_normal (planeH exampleHeap 0))
              (Plane_normal (planeH exampleHeap (Polygon_plane (polygonH exampleHeap 2)))) > 0"
    by (simp add: example_defs Vector_defs)
  have d3: "Vector_dot (Plane_normal (planeH exampleHeap 0))
              (Plane_normal (planeH exampleHeap (Polygon_plane (polygonH exampleHeap 3)))) > 0"
    by (simp add: example_defs Vector_defs)
  have a: "Plane_splitPolygon 0 0 exampleHeap = (Inr [(Front, 0)], exampleHeap)"
    using ex_polygonTypes(1) splitPolygon_classifies[where h=exampleHeap and this=0 and polygon=0]
    by (elim conjE) simp
  have b: "Plane_splitPolygon 0 2 exampleHeap = (Inr [(CoplanarBack, 2)], exampleHeap)"
    using ex_polygonTypes(3) d2 splitPolygon_classifies[where h=exampleHeap and this=0 and polygon=2]
    by (elim conjE) simp
  have c: "Plane_splitPolygon 0 3 exampleHeap = (Inr [(CoplanarFront, 3)], exampleHeap)"
    using ex_polygonTypes(4) d3 splitPolygon_classifies[where h=exampleHeap and this=0 and polygon=3]
    by (elim conjE) simp
  have d: "Plane_splitPolygon 0 4 exampleHeap = (Inr [(Back, 4)], exampleHeap)"
    using ex_polygonTypes(5) splitPolygon_classifies[where h=exampleHeap and this=0 and polygon=4]
    by (elim conjE) simp
  show ?thesis using a b c d by simp
qed

section \<open>Node.clipPolygons on a node without a plane\<close>

text \<open>
  Claim C9. On a node whose plane is null, \<^verbatim>\<open>clipPolygons\<close> returns
  \<^verbatim>\<open>polygons.slice()\<close>: the same polygon objects in the same order. Nothing is cloned and
  the store is not written. (The result is a list value here, so that the array is a new one
  is not part of the statement.)
\<close>

theorem clipPolygons_null_plane:
  "Node_clipPolygons (Node None fr bk own) polygons h = (Inr polygons, h)"
  by simp

theorem clipPolygons_null_plane_witness:
  "Node_clipPolygons Node_empty [0, 1, 4] exampleHeap = (Inr [0, 1, 4], exampleHeap)"
  using clipPolygons_null_plane[of None None "[]" "[0, 1, 4]" exampleHeap]
  by (simp only: Node_empty_def)

section \<open>Node.build with no polygons\<close>

text \<open>
  Claim C10. \<^verbatim>\<open>build\<close> called with an empty list returns at once: the plane, the two
  children and the polygons of the node are what they were, no plane is adopted, no child
  is created, and the store is not written. No depth is needed for it.
\<close>

theorem build_empty_list:
  "Node_build n this [] h = Some (Inr this, h)"
  by simp

theorem build_empty_list_witness:
  "Node_build 0 (Node (Some 0) None None [2]) [] exampleHeap
     = Some (Inr (Node (Some 0) None None [2]), exampleHeap)
   \<and> Node_build 0 Node_empty [] exampleHeap = Some (Inr Node_empty, exampleHeap)"
  using build_empty_list[of 0 "Node (Some 0) None None [2]" exampleHeap]
    build_empty_list[of 0 Node_empty exampleHeap]
  by simp

section \<open>Plane.splitPolygon: the spanning case\<close>

lemma spanLoop_frame:
  "spanLoop pl vs types ixs f b h = (f', b', h') \<Longrightarrow>
   arrayH h' = arrayH h \<and> arrayN h' = arrayN h \<and> polygonH h' = polygonH h
   \<and> polygonN h' = polygonN h \<and> planeH h' = planeH h \<and> planeN h' = planeN h"
proof (induction ixs arbitrary: f b h)
  case Nil
  then show ?case by simp
next
  case (Cons i ixs)
  show ?case
    using Cons.prems
    by (auto simp: Let_def Vertex_clone_def Vertex_new_def Vertex_interpolate_def
          split: prod.splits if_splits dest!: Cons.IH)
qed

lemma pushChain_short: "length chain < 3 \<Longrightarrow> pushChain tg chain sh h = (Inr [], h)"
  by (simp add: pushChain_def)

lemma pushChain_long:
  assumes "3 \<le> length chain"
  shows "\<exists>h'. pushChain tg chain sh h = (Inr [(tg, polygonN h)], h')
     \<and> polygonN h' = Suc (polygonN h) \<and> arrayN h' = Suc (arrayN h)
     \<and> arrayH h' = (arrayH h)(arrayN h := chain)
     \<and> polygonH h' = (polygonH h)(polygonN h := \<lparr>Polygon_vertices = arrayN h, Polygon_shared = sh, Polygon_plane = planeN h\<rparr>)
     \<and> vertexH h' = vertexH h \<and> vertexN h' = vertexN h"
  using assms
  by (simp add: pushChain_def Array_new_def Polygon_new_def Plane_fromPoints_def Plane_new_def Let_def)

text \<open>
  Claim C5. When the polygon is spanning, the loop leaves the two chains \<open>f\<close> and \<open>b\<close>.
  The call does not throw. It pushes a new polygon made of \<open>f\<close> onto \<^verbatim>\<open>front\<close> if and
  only if \<open>f\<close> has at least three vertices, then a new polygon made of \<open>b\<close> onto
  \<^verbatim>\<open>back\<close> if and only if \<open>b\<close> has at least three, and pushes nothing else; a shorter
  chain is dropped. Each new polygon has the chain as its vertices and the
  \<^verbatim>\<open>shared\<close> tag of the polygon that was split; the polygons that existed are not
  written.
\<close>

theorem splitPolygon_spanning:
  fixes h :: "'s Heap" and this polygon :: nat
  defines "pl \<equiv> planeH h this"
  defines "vs \<equiv> arrayH h (Polygon_vertices (polygonH h polygon))"
  defines "types \<equiv> vertexTypes pl vs h"
  defines "p1 \<equiv> polygonN h"
  assumes sp: "polygonType types = SPANNING"
  assumes loop: "spanLoop pl vs types [0..<length vs] [] [] h = (f, b, h1)"
  defines "p2 \<equiv> (if 3 \<le> length f then Suc (polygonN h) else polygonN h)"
  shows "\<exists>h'. Plane_splitPolygon this polygon h =
            (Inr ((if 3 \<le> length f then [(Front, p1)] else [])
                  @ (if 3 \<le> length b then [(Back, p2)] else [])), h')
     \<and> (3 \<le> length f \<longrightarrow> arrayH h' (Polygon_vertices (polygonH h' p1)) = f
           \<and> Polygon_shared (polygonH h' p1) = Polygon_shared (polygonH h polygon))
     \<and> (3 \<le> length b \<longrightarrow> arrayH h' (Polygon_vertices (polygonH h' p2)) = b
           \<and> Polygon_shared (polygonH h' p2) = Polygon_shared (polygonH h polygon))
     \<and> polygonN h' = polygonN h + (if 3 \<le> length f then 1 else 0) + (if 3 \<le> length b then 1 else 0)
     \<and> (\<forall>p<polygonN h. polygonH h' p = polygonH h p)"
proof -
  note fr = spanLoop_frame[OF loop]
  define sh where "sh = Polygon_shared (polygonH h polygon)"
  have pt: "polygonType (vertexTypes (planeH h this)
              (arrayH h (Polygon_vertices (polygonH h polygon))) h) = 3"
    using sp by (simp add: types_def vs_def pl_def SPANNING_def)
  have loop': "spanLoop (planeH h this) (arrayH h (Polygon_vertices (polygonH h polygon)))
       (vertexTypes (planeH h this) (arrayH h (Polygon_vertices (polygonH h polygon))) h)
       [0..<length (arrayH h (Polygon_vertices (polygonH h polygon)))] [] [] h = (f, b, h1)"
    using loop by (simp add: types_def vs_def pl_def)
  have unf: "Plane_splitPolygon this polygon h =
      (case pushChain Front f (Polygon_shared (polygonH h1 polygon)) h1 of
              (Inl e, h2) \<Rightarrow> (Inl e, h2)
            | (Inr o1, h2) \<Rightarrow>
                (case pushChain Back b (Polygon_shared (polygonH h2 polygon)) h2 of
                   (Inl e, h3) \<Rightarrow> (Inl e, h3)
                 | (Inr o2, h3) \<Rightarrow> (Inr (o1 @ o2), h3)))"
    unfolding Plane_splitPolygon_def Let_def pt loop'
    by (simp add: COPLANAR_def FRONT_def BACK_def SPANNING_def)
  have sh1: "Polygon_shared (polygonH h1 polygon) = sh" using fr by (simp add: sh_def)
  have n1: "polygonN h1 = polygonN h" "polygonH h1 = polygonH h" using fr by simp_all
  show ?thesis
  proof (cases "3 \<le> length f")
    case fT: True
    from pushChain_long[OF fT, of Front sh h1] obtain h2 where
      c1: "pushChain Front f sh h1 = (Inr [(Front, polygonN h1)], h2)"
      and h2: "polygonN h2 = Suc (polygonN h1)" "arrayN h2 = Suc (arrayN h1)"
        "arrayH h2 = (arrayH h1)(arrayN h1 := f)"
        "polygonH h2 = (polygonH h1)(polygonN h1 :=
            \<lparr>Polygon_vertices = arrayN h1, Polygon_shared = sh, Polygon_plane = planeN h1\<rparr>)"
      by blast
    have sh2: "Polygon_shared (polygonH h2 polygon) = sh"
      using h2(4) sh1 by simp
    show ?thesis
    proof (cases "3 \<le> length b")
      case bT: True
      from pushChain_long[OF bT, of Back sh h2] obtain h3 where
        c2: "pushChain Back b sh h2 = (Inr [(Back, polygonN h2)], h3)"
        and h3: "arrayH h3 = (arrayH h2)(arrayN h2 := b)"
          "polygonH h3 = (polygonH h2)(polygonN h2 :=
              \<lparr>Polygon_vertices = arrayN h2, Polygon_shared = sh, Polygon_plane = planeN h2\<rparr>)"
          "polygonN h3 = Suc (polygonN h2)"
        by blast
      have "Plane_splitPolygon this polygon h = (Inr [(Front, polygonN h1), (Back, polygonN h2)], h3)"
        unfolding unf sh1 c1 by (simp add: sh2 c2)
      then show ?thesis
        using fT bT h2 h3 n1 by (simp add: sh_def p1_def p2_def)
    next
      case bF: False
      have "Plane_splitPolygon this polygon h = (Inr [(Front, polygonN h1)], h2)"
        unfolding unf sh1 c1 using bF by (simp add: sh2 pushChain_short)
      then show ?thesis
        using fT bF h2 n1 by (simp add: sh_def p1_def p2_def)
    qed
  next
    case fF: False
    then have c1: "pushChain Front f sh h1 = (Inr [], h1)" by (simp add: pushChain_short)
    show ?thesis
    proof (cases "3 \<le> length b")
      case bT: True
      from pushChain_long[OF bT, of Back sh h1] obtain h3 where
        c2: "pushChain Back b sh h1 = (Inr [(Back, polygonN h1)], h3)"
        and h3: "arrayH h3 = (arrayH h1)(arrayN h1 := b)"
          "polygonH h3 = (polygonH h1)(polygonN h1 :=
              \<lparr>Polygon_vertices = arrayN h1, Polygon_shared = sh, Polygon_plane = planeN h1\<rparr>)"
          "polygonN h3 = Suc (polygonN h1)"
        by blast
      have "Plane_splitPolygon this polygon h = (Inr [(Back, polygonN h1)], h3)"
        unfolding unf sh1 c1 by (simp add: sh1 c2)
      then show ?thesis
        using fF bT h3 n1 by (simp add: sh_def p1_def p2_def)
    next
      case bF: False
      have "Plane_splitPolygon this polygon h = (Inr [], h1)"
        unfolding unf sh1 c1 using bF by (simp add: sh1 pushChain_short)
      then show ?thesis
        using fF bF n1 by simp
    qed
  qed
qed

text \<open>
  The theorem at the example store: the square split by plane 0. Vertices 16 and 18 are the
  two crossing points, 17 and 19 their clones; the fragments are the polygons 5 and 6, with
  the tag 21 of the square.
\<close>

lemma upt4: "[0..<4] = [0, 1, 2, 3]" by (simp add: upt_rec)

lemma ex_loop:
  "fst (spanLoop (planeH exampleHeap 0) [3, 4, 5, 6] [2, 2, 1, 1] [0, 1, 2, 3] [] [] exampleHeap) = [16, 5, 6, 18]"
  "fst (snd (spanLoop (planeH exampleHeap 0) [3, 4, 5, 6] [2, 2, 1, 1] [0, 1, 2, 3] [] [] exampleHeap)) = [3, 4, 17, 19]"
  by (simp_all add: exampleHeap_def cells_def vtx_def pln_def pgn_def Let_def
        Vertex_clone_def Vertex_new_def Vertex_interpolate_def
        COPLANAR_def FRONT_def BACK_def SPANNING_def)


lemma ex_data:
  "planeH exampleHeap 0 = pln 1 0 0 0" "polygonH exampleHeap 1 = pgn 1 21 2"
  "arrayH exampleHeap 1 = [3, 4, 5, 6]" "polygonN exampleHeap = 5"
  by (simp_all add: exampleHeap_def cells_def)

theorem splitPolygon_spanning_witness:
  "\<exists>h'. Plane_splitPolygon 0 1 exampleHeap = (Inr [(Front, 5), (Back, 6)], h')
     \<and> arrayH h' (Polygon_vertices (polygonH h' 5)) = [16, 5, 6, 18]
     \<and> Polygon_shared (polygonH h' 5) = 21
     \<and> arrayH h' (Polygon_vertices (polygonH h' 6)) = [3, 4, 17, 19]
     \<and> Polygon_shared (polygonH h' 6) = 21"
proof -
  let ?r = "spanLoop (planeH exampleHeap 0) [3, 4, 5, 6] [2, 2, 1, 1] [0, 1, 2, 3] [] [] exampleHeap"
  have vt: "vertexTypes (planeH exampleHeap 0) [3, 4, 5, 6] exampleHeap = [2, 2, 1, 1]"
    by (simp add: exampleHeap_def cells_def vtx_def pln_def vertexTypes_def vertexType_def
          Vector_dot_def Vector_new_def Plane_EPSILON_def COPLANAR_def FRONT_def BACK_def)
  have a: "polygonType (vertexTypes (planeH exampleHeap 0)
             (arrayH exampleHeap (Polygon_vertices (polygonH exampleHeap 1))) exampleHeap) = SPANNING"
    by (rule ex_polygonTypes(2))
  have e1: "arrayH exampleHeap (Polygon_vertices (polygonH exampleHeap 1)) = [3, 4, 5, 6]"
    by (simp add: ex_data(2,3) pgn_def del: One_nat_def)
  have l: "[0..<length [3, 4, 5, 6::nat]] = [0, 1, 2, 3]"
    by (simp add: upt_rec)
  have b: "spanLoop (planeH exampleHeap 0) (arrayH exampleHeap (Polygon_vertices (polygonH exampleHeap 1)))
             (vertexTypes (planeH exampleHeap 0)
               (arrayH exampleHeap (Polygon_vertices (polygonH exampleHeap 1))) exampleHeap)
             [0..<length (arrayH exampleHeap (Polygon_vertices (polygonH exampleHeap 1)))] [] [] exampleHeap
           = ([16, 5, 6, 18], [3, 4, 17, 19], snd (snd ?r))"
    unfolding e1 vt l by (simp only: ex_loop[symmetric] prod.collapse)
  from splitPolygon_spanning[OF a b] show ?thesis
    by (simp add: ex_data pgn_def del: One_nat_def) blast
qed

section \<open>Node.clipPolygons: where coplanar polygons go\<close>









section \<open>Flips\<close>

lemma Vector_negated_twice [simp]: "Vector_negated (Vector_negated v) = v"
  by (simp add: Vector_negated_def Vector_new_def)

lemma flipVertex_twice [simp]: "flipVertex (flipVertex v) = v"
  by (simp add: flipVertex_def)

lemma flipPlane_twice [simp]: "flipPlane (flipPlane p) = p"
  by (simp add: flipPlane_def)

lemma applyFlips_fields [simp]:
  "polygonH (applyFlips A V P h) = polygonH h"
  "polygonN (applyFlips A V P h) = polygonN h"
  "vertexN (applyFlips A V P h) = vertexN h"
  "arrayN (applyFlips A V P h) = arrayN h"
  "planeN (applyFlips A V P h) = planeN h"
  "vertexH (applyFlips A V P h) v = (if odd (count V v) then flipVertex (vertexH h v) else vertexH h v)"
  "arrayH (applyFlips A V P h) a = (if odd (count A a) then rev (arrayH h a) else arrayH h a)"
  "planeH (applyFlips A V P h) q = (if odd (count P q) then flipPlane (planeH h q) else planeH h q)"
  by (simp_all add: applyFlips_def)

lemma Heap_eqI:
  fixes h h' :: "'s Heap"
  assumes "\<And>v. vertexH h v = vertexH h' v" "\<And>a. arrayH h a = arrayH h' a"
    "\<And>q. planeH h q = planeH h' q" "polygonH h = polygonH h'"
    "vertexN h = vertexN h'" "arrayN h = arrayN h'" "planeN h = planeN h'" "polygonN h = polygonN h'"
  shows "h = h'"
proof -
  have "vertexH h = vertexH h'" "arrayH h = arrayH h'" "planeH h = planeH h'"
    using assms by (auto simp: fun_eq_iff)
  then show ?thesis using assms(4-8) by simp
qed

lemma applyFlips_compose:
  "applyFlips A2 V2 P2 (applyFlips A1 V1 P1 h) = applyFlips (A1 + A2) (V1 + V2) (P1 + P2) h"
  by (rule Heap_eqI) auto

lemma applyFlips_even:
  assumes "\<And>x. even (count A x)" "\<And>x. even (count V x)" "\<And>x. even (count P x)"
  shows "applyFlips A V P h = h"
  by (rule Heap_eqI) (simp_all add: assms)

lemma applyFlips_empty [simp]: "applyFlips {#} {#} {#} h = h"
  by (rule Heap_eqI) auto

lemma Vertex_flip_applyFlips: "Vertex_flip v h = applyFlips {#} {#v#} {#} h"
  by (rule Heap_eqI) (auto simp: Vertex_flip_def flipVertex_def)

lemma Plane_flip_applyFlips: "Plane_flip q h = applyFlips {#} {#} {#q#} h"
  by (rule Heap_eqI) (auto simp: Plane_flip_def flipPlane_def)

lemma fold_Vertex_flip: "fold Vertex_flip vs h = applyFlips {#} (mset vs) {#} h"
  by (induction vs arbitrary: h) (simp_all add: Vertex_flip_applyFlips applyFlips_compose)

lemma Polygon_flip_applyFlips:
  "Polygon_flip p h =
     applyFlips {#Polygon_vertices (polygonH h p)#}
                (mset (arrayH h (Polygon_vertices (polygonH h p))))
                {#Polygon_plane (polygonH h p)#} h"
proof -
  let ?a = "Polygon_vertices (polygonH h p)"
  have r: "h\<lparr>arrayH := (arrayH h)(?a := rev (arrayH h ?a))\<rparr> = applyFlips {#?a#} {#} {#} h"
    by (rule Heap_eqI) auto
  show ?thesis
    unfolding Polygon_flip_def Let_def r
    by (simp add: fold_Vertex_flip Plane_flip_applyFlips applyFlips_compose)
qed

lemma mset_if_rev [simp]: "mset (if c then rev xs else xs) = mset xs"
  by simp

lemma poly_applyFlips [simp]:
  "polyArrays (applyFlips A V P h) ps = polyArrays h ps"
  "polyPlanes (applyFlips A V P h) ps = polyPlanes h ps"
  "polyVertices (applyFlips A V P h) ps = polyVertices h ps"
  by (simp_all add: polyArrays_def polyPlanes_def polyVertices_def)

lemma poly_Nil [simp]:
  "polyArrays h [] = {#}" "polyPlanes h [] = {#}" "polyVertices h [] = {#}"
  by (simp_all add: polyArrays_def polyPlanes_def polyVertices_def)

lemma poly_Cons [simp]:
  "polyArrays h (p # ps) = {#Polygon_vertices (polygonH h p)#} + polyArrays h ps"
  "polyPlanes h (p # ps) = {#Polygon_plane (polygonH h p)#} + polyPlanes h ps"
  "polyVertices h (p # ps) = mset (arrayH h (Polygon_vertices (polygonH h p))) + polyVertices h ps"
  by (simp_all add: polyArrays_def polyPlanes_def polyVertices_def)

lemma poly_append [simp]:
  "polyArrays h (ps @ qs) = polyArrays h ps + polyArrays h qs"
  "polyPlanes h (ps @ qs) = polyPlanes h ps + polyPlanes h qs"
  "polyVertices h (ps @ qs) = polyVertices h ps + polyVertices h qs"
  by (simp_all add: polyArrays_def polyPlanes_def polyVertices_def)

lemma fold_Polygon_flip:
  "fold Polygon_flip ps h = applyFlips (polyArrays h ps) (polyVertices h ps) (polyPlanes h ps) h"
proof (induction ps arbitrary: h)
  case Nil
  show ?case by simp
next
  case (Cons p ps)
  let ?h1 = "Polygon_flip p h"
  have "fold Polygon_flip (p # ps) h = fold Polygon_flip ps ?h1" by simp
  also have "\<dots> = applyFlips (polyArrays ?h1 ps) (polyVertices ?h1 ps) (polyPlanes ?h1 ps) ?h1"
    by (rule Cons.IH)
  also have "\<dots> = applyFlips (polyArrays h (p # ps)) (polyVertices h (p # ps))
                        (polyPlanes h (p # ps)) h"
    unfolding Polygon_flip_applyFlips by (simp add: applyFlips_compose)
  finally show ?case .
qed

lemma Node_invert_applyFlips:
  fixes h :: "'s Heap"
  shows "hasPlanes t \<Longrightarrow>
   Node_invert t h =
     (Inr (mirror t),
      applyFlips (polyArrays h (Node_allPolygons t)) (polyVertices h (Node_allPolygons t))
                 (polyPlanes h (Node_allPolygons t) + nodePlanes t) h)"
proof (induction t arbitrary: h)
  case (Node pl fr bk ps)
  from Node.prems obtain q where q: "pl = Some q" by auto
  have frI: "Node_invert n h =
     (Inr (mirror n),
      applyFlips (polyArrays h (Node_allPolygons n)) (polyVertices h (Node_allPolygons n))
                 (polyPlanes h (Node_allPolygons n) + nodePlanes n) h)" if "fr = Some n" for n and h :: "'s Heap"
    using Node.IH(1)[of n h] Node.prems that by simp
  have bkI: "Node_invert n h =
     (Inr (mirror n),
      applyFlips (polyArrays h (Node_allPolygons n)) (polyVertices h (Node_allPolygons n))
                 (polyPlanes h (Node_allPolygons n) + nodePlanes n) h)" if "bk = Some n" for n and h :: "'s Heap"
    using Node.IH(2)[of n h] Node.prems that by simp
  show ?case
  proof (cases fr)
    case None
    note frN = None
    show ?thesis
    proof (cases bk)
      case None
      show ?thesis
        by (simp add: q frN None fold_Polygon_flip Plane_flip_applyFlips applyFlips_compose
              ac_simps)
    next
      case (Some b)
      show ?thesis
        by (simp add: q frN Some bkI[OF Some] fold_Polygon_flip Plane_flip_applyFlips
              applyFlips_compose ac_simps)
    qed
  next
    case (Some f)
    note frS = Some
    show ?thesis
    proof (cases bk)
      case None
      show ?thesis
        by (simp add: q frS None frI[OF frS] fold_Polygon_flip Plane_flip_applyFlips
              applyFlips_compose ac_simps)
    next
      case (Some b)
      show ?thesis
        by (simp add: q frS Some frI[OF frS] bkI[OF Some] fold_Polygon_flip Plane_flip_applyFlips
              applyFlips_compose ac_simps)
    qed
  qed
qed

lemma mirror_mirror [simp]: "mirror (mirror t) = t"
  by (induction t) (auto split: option.splits)

lemma hasPlanes_mirror [simp]: "hasPlanes (mirror t) = hasPlanes t"
  by (induction t) (auto split: option.splits)

lemma nodePlanes_mirror [simp]: "nodePlanes (mirror t) = nodePlanes t"
  by (induction t) (auto split: option.splits)

lemma mset_allPolygons_mirror [simp]:
  "mset (Node_allPolygons (mirror t)) = mset (Node_allPolygons t)"
  by (induction t) (auto split: option.splits)

lemma poly_mset_cong:
  "mset ps = mset qs \<Longrightarrow> polyArrays h ps = polyArrays h qs"
  "mset ps = mset qs \<Longrightarrow> polyPlanes h ps = polyPlanes h qs"
  "mset ps = mset qs \<Longrightarrow> polyVertices h ps = polyVertices h qs"
  by (simp_all add: polyArrays_def polyPlanes_def polyVertices_def)

lemma Node_invert_twice:
  assumes "hasPlanes t"
  shows "\<exists>h1. Node_invert t h = (Inr (mirror t), h1) \<and> Node_invert (mirror t) h1 = (Inr t, h)"
proof -
  let ?ps = "Node_allPolygons t"
  let ?h1 = "applyFlips (polyArrays h ?ps) (polyVertices h ?ps) (polyPlanes h ?ps + nodePlanes t) h"
  have 1: "Node_invert t h = (Inr (mirror t), ?h1)"
    by (rule Node_invert_applyFlips[OF assms])
  have m: "mset (Node_allPolygons (mirror t)) = mset ?ps" by simp
  have 2: "Node_invert (mirror t) ?h1 = (Inr t, applyFlips (polyArrays h ?ps + polyArrays h ?ps)
       (polyVertices h ?ps + polyVertices h ?ps)
       ((polyPlanes h ?ps + nodePlanes t) + (polyPlanes h ?ps + nodePlanes t)) h)"
    using assms
    by (simp add: Node_invert_applyFlips poly_mset_cong[OF m] applyFlips_compose)
  have 3: "applyFlips (polyArrays h ?ps + polyArrays h ?ps)
       (polyVertices h ?ps + polyVertices h ?ps)
       ((polyPlanes h ?ps + nodePlanes t) + (polyPlanes h ?ps + nodePlanes t)) h = h"
    by (rule applyFlips_even) simp_all
  show ?thesis using 1 2 3 by simp
qed

section \<open>Reasoning about the outcomes of calls\<close>

lemma post_simps [simp]:
  "post Q E (Inl e, h) = E h" "post Q E (Inr a, h) = Q a h"
  by (simp_all add: post_def)

lemma postF_simps [simp]:
  "postF Q E None = True" "postF Q E (Some r) = post Q E r"
  by (simp_all add: postF_def)

lemma post_bind:
  "post Q E (case m of (Inl e, h) \<Rightarrow> (Inl e, h) | (Inr a, h) \<Rightarrow> f a h)
     = post (\<lambda>a h. post Q E (f a h)) E m"
  by (cases m) (auto split: sum.splits)

lemma postF_bind:
  "postF Q E (case m of (Inl e, h) \<Rightarrow> Some (Inl e, h) | (Inr a, h) \<Rightarrow> f a h)
     = post (\<lambda>a h. postF Q E (f a h)) E m"
  by (cases m) (auto split: sum.splits)

lemma postF_bindF:
  "postF Q E (case m of None \<Rightarrow> None | Some (Inl e, h) \<Rightarrow> Some (Inl e, h) | Some (Inr a, h) \<Rightarrow> f a h)
     = postF (\<lambda>a h. postF Q E (f a h)) E m"
  by (cases m) (auto split: sum.splits)

lemma post_mono:
  assumes "post Q E m" "\<And>a h. Q a h \<Longrightarrow> Q' a h" "\<And>h. E h \<Longrightarrow> E' h"
  shows "post Q' E' m"
proof -
  obtain r h where m: "m = (r, h)" by (cases m)
  show ?thesis using assms unfolding m by (cases r) simp_all
qed

lemma postF_mono:
  assumes "postF Q E m" "\<And>a h. Q a h \<Longrightarrow> Q' a h" "\<And>h. E h \<Longrightarrow> E' h"
  shows "postF Q' E' m"
proof (cases m)
  case None
  then show ?thesis by simp
next
  case (Some r)
  then show ?thesis using post_mono[of Q E r Q' E'] assms by simp
qed


lemma Node_build_Suc:
  "Node_build (Suc n) (Node pl fr bk own) (p # ps) h =
     (let (q, h1) = (case pl of
                       None \<Rightarrow> Plane_clone (Polygon_plane (polygonH h p)) h
                     | Some q \<Rightarrow> (q, h))
      in case splitAll q (p # ps) h1 of
           (Inl e, h2) \<Rightarrow> Some (Inl e, h2)
         | (Inr out, h2) \<Rightarrow>
             (case buildChild n fr (pushed [Front] out) h2 of
                None \<Rightarrow> None
              | Some (Inl e, h3) \<Rightarrow> Some (Inl e, h3)
              | Some (Inr fr', h3) \<Rightarrow>
                  (case buildChild n bk (pushed [Back] out) h3 of
                     None \<Rightarrow> None
                   | Some (Inl e, h4) \<Rightarrow> Some (Inl e, h4)
                   | Some (Inr bk', h4) \<Rightarrow>
                       Some (Inr (Node (Some q) fr' bk'
                                   (own @ pushed [CoplanarFront, CoplanarBack] out)), h4))))"
  unfolding buildChild_def Node_build.simps ..


lemma buildChild_post:
  assumes "\<And>c. x = Some c \<Longrightarrow> P c" "P Node_empty"
    and "\<And>t. P t \<Longrightarrow> qs \<noteq> [] \<Longrightarrow> postF Q E (Node_build n t qs h)"
    and "qs = [] \<Longrightarrow> R x h" and "\<And>c h'. Q c h' \<Longrightarrow> R (Some c) h'"
  shows "postF R E (buildChild n x qs h)"
proof (cases "qs = []")
  case True
  then show ?thesis using assms(4) by (simp add: buildChild_def)
next
  case False
  have "P (case x of None \<Rightarrow> Node_empty | Some c \<Rightarrow> c)"
    using assms(1,2) by (cases x) auto
  from assms(3)[OF this False]
  have "postF Q E (Node_build n (case x of None \<Rightarrow> Node_empty | Some c \<Rightarrow> c) qs h)" .
  then have "postF (\<lambda>c. R (Some c)) E (Node_build n (case x of None \<Rightarrow> Node_empty | Some c \<Rightarrow> c) qs h)"
    by (rule postF_mono) (use assms(5) in auto)
  moreover have "buildChild n x qs h =
      (case Node_build n (case x of None \<Rightarrow> Node_empty | Some c \<Rightarrow> c) qs h of
           None \<Rightarrow> None
         | Some (Inl e, h') \<Rightarrow> Some (Inl e, h')
         | Some (Inr c, h') \<Rightarrow> Some (Inr (Some c), h'))"
    using False by (simp add: buildChild_def)
  ultimately show ?thesis
    by (simp only: postF_bindF postF_simps post_simps)
qed

lemma post_trivial: "post (\<lambda>a h. True) (\<lambda>h. True) m"
proof -
  obtain r h where m: "m = (r, h)" by (cases m)
  show ?thesis unfolding m by (cases r) simp_all
qed

section \<open>Node.build gives every node a plane\<close>

lemma hasPlanes_children:
  "hasPlanes t \<Longrightarrow> (\<forall>c. Node_front t = Some c \<longrightarrow> hasPlanes c) \<and> (\<forall>c. Node_back t = Some c \<longrightarrow> hasPlanes c)"
  by (cases t) auto

lemma build_hasPlanes_post:
  fixes h :: "'s Heap"
  shows "ps \<noteq> [] \<Longrightarrow>
    (\<forall>c. Node_front t = Some c \<longrightarrow> hasPlanes c) \<and> (\<forall>c. Node_back t = Some c \<longrightarrow> hasPlanes c) \<Longrightarrow>
    postF (\<lambda>t' h'. hasPlanes t') (\<lambda>h'. True) (Node_build n t ps h)"
proof (induction n arbitrary: t ps h)
  case 0
  obtain p ps' where ps: "ps = p # ps'" using 0(1) by (cases ps) auto
  show ?case unfolding ps by simp
next
  case (Suc n)
  obtain pl fr bk own where t: "t = Node pl fr bk own" by (cases t)
  obtain p ps' where ps: "ps = p # ps'" using Suc.prems(1) by (cases ps) auto
  have ch: "\<And>c. fr = Some c \<Longrightarrow> hasPlanes c" "\<And>c. bk = Some c \<Longrightarrow> hasPlanes c"
    using Suc.prems(2) t by auto
  define P where "P = (\<lambda>t. (\<forall>c. Node_front t = Some c \<longrightarrow> hasPlanes c)
                          \<and> (\<forall>c. Node_back t = Some c \<longrightarrow> hasPlanes c))"
  have child: "postF (\<lambda>c h'. case c of None \<Rightarrow> True | Some c \<Rightarrow> hasPlanes c) (\<lambda>h'. True)
                 (buildChild n x qs h1)"
    if "\<And>c. x = Some c \<Longrightarrow> hasPlanes c" for x qs and h1 :: "'s Heap"
  proof (rule buildChild_post[where P = P and Q = "\<lambda>t' h'. hasPlanes t'"])
    show "\<And>c. x = Some c \<Longrightarrow> P c" unfolding P_def using that hasPlanes_children by blast
    show "P Node_empty" by (simp add: P_def Node_empty_def)
    show "\<And>t. P t \<Longrightarrow> qs \<noteq> [] \<Longrightarrow> postF (\<lambda>t' h'. hasPlanes t') (\<lambda>h'. True) (Node_build n t qs h1)"
      unfolding P_def by (rule Suc.IH)
    show "qs = [] \<Longrightarrow> (case x of None \<Rightarrow> True | Some c \<Rightarrow> hasPlanes c)"
      using that by (cases x) auto
  qed simp
  obtain q h1 where q: "(case pl of None \<Rightarrow> Plane_clone (Polygon_plane (polygonH h p)) h
                       | Some q \<Rightarrow> (q, h)) = (q, h1)"
    by (cases "(case pl of None \<Rightarrow> Plane_clone (Polygon_plane (polygonH h p)) h | Some q \<Rightarrow> (q, h))")
  show ?case
    unfolding t ps Node_build_Suc q prod.case Let_def postF_bind postF_bindF
  proof (rule post_mono[where Q = "\<lambda>out h. True" and E = "\<lambda>h. True"])
    show "post (\<lambda>out h. True) (\<lambda>h. True) (splitAll q (p # ps') h1)"
      by (rule post_trivial)
  next
    fix out and h2 :: "'s Heap"
    show "postF (\<lambda>a h. postF (\<lambda>a' h. postF (\<lambda>t' h'. hasPlanes t') (\<lambda>h'. True)
             (Some (Inr (Node (Some q) a a' (own @ pushed [CoplanarFront, CoplanarBack] out)), h)))
             (\<lambda>h'. True) (buildChild n bk (pushed [Back] out) h))
           (\<lambda>h'. True) (buildChild n fr (pushed [Front] out) h2)"
    proof (rule postF_mono[OF child[OF ch(1)]])
      fix a and h3 :: "'s Heap"
      assume a: "case a of None \<Rightarrow> True | Some c \<Rightarrow> hasPlanes c"
      show "postF (\<lambda>a' h. postF (\<lambda>t' h'. hasPlanes t') (\<lambda>h'. True)
             (Some (Inr (Node (Some q) a a' (own @ pushed [CoplanarFront, CoplanarBack] out)), h)))
             (\<lambda>h'. True) (buildChild n bk (pushed [Back] out) h3)"
        by (rule postF_mono[OF child[OF ch(2)]]) (use a in simp_all)
    qed simp_all
  qed simp
qed

lemma build_hasPlanes:
  fixes h :: "'s Heap"
  assumes "Node_build n t ps h = Some (Inr t', h')" "ps \<noteq> []"
    "(\<forall>c. Node_front t = Some c \<longrightarrow> hasPlanes c) \<and> (\<forall>c. Node_back t = Some c \<longrightarrow> hasPlanes c)"
  shows "hasPlanes t'"
  using build_hasPlanes_post[OF assms(2,3), of n h] assms(1) by simp

lemma Node_invert_empty: "Node_invert Node_empty h = (Inl TypeError, h)"
  by (simp add: Node_empty_def)

section \<open>Polygon.flip twice\<close>

text \<open>
  Claim C7. \<^verbatim>\<open>flip\<close> reverses the vertex array of the polygon in place, negates the
  normal of every vertex in it and negates the normal and \<open>w\<close> of its plane. Calling it
  twice restores the store: the vertices are in their original order, every vertex normal
  and the plane are the original ones, in exact arithmetic, whatever is shared between the
  entries of the array.
\<close>

theorem Polygon_flip_twice:
  fixes h :: "'s Heap" and p :: nat
  defines "a \<equiv> Polygon_vertices (polygonH h p)"
  defines "q \<equiv> Polygon_plane (polygonH h p)"
  shows "arrayH (Polygon_flip p h) a = rev (arrayH h a)
     \<and> planeH (Polygon_flip p h) q = flipPlane (planeH h q)
     \<and> Polygon_flip p (Polygon_flip p h) = h"
proof -
  let ?h1 = "applyFlips {#a#} (mset (arrayH h a)) {#q#} h"
  have 1: "Polygon_flip p h = ?h1"
    unfolding a_def q_def by (rule Polygon_flip_applyFlips)
  have "Polygon_flip p ?h1 = applyFlips {#Polygon_vertices (polygonH ?h1 p)#}
                (mset (arrayH ?h1 (Polygon_vertices (polygonH ?h1 p))))
                {#Polygon_plane (polygonH ?h1 p)#} ?h1"
    by (rule Polygon_flip_applyFlips)
  also have "\<dots> = h"
    by (simp add: applyFlips_compose a_def q_def) (rule applyFlips_even, simp_all)
  finally have 2: "Polygon_flip p ?h1 = h" .
  show ?thesis unfolding 1 using 2 by simp
qed

theorem Polygon_flip_twice_witness:
  "arrayH (Polygon_flip 1 exampleHeap) 1 = [6, 5, 4, 3]
   \<and> planeH (Polygon_flip 1 exampleHeap) 2 = pln 0 0 (-1) 0
   \<and> Polygon_flip 1 (Polygon_flip 1 exampleHeap) = exampleHeap"
proof -
  have a: "Polygon_vertices (polygonH exampleHeap 1) = 1" "Polygon_plane (polygonH exampleHeap 1) = 2"
    "arrayH exampleHeap 1 = [3, 4, 5, 6]" "planeH exampleHeap 2 = pln 0 0 1 0"
    by (simp_all add: example_defs)
  have b: "flipPlane (pln 0 0 1 0) = pln 0 0 (-1) 0"
    by (simp add: flipPlane_def pln_def Vector_negated_def Vector_new_def)
  from Polygon_flip_twice[of 1 exampleHeap] show ?thesis
    unfolding a by (simp add: b)
qed

section \<open>Node.invert on the trees that build makes\<close>

lemma ex_build:
  "\<exists>h'. Node_new 2 [3, 0, 4] exampleHeap =
     Some (Inr (Node (Some 6) (Some (Node (Some 7) None None [0]))
                  (Some (Node (Some 8) None None [4])) [3]), h')"
  by (simp add: Node_new_def Node_empty_def numeral_2_eq_2 Plane_clone_def Plane_new_def
        Plane_splitPolygon_def Let_def vertexTypes_def vertexType_def polygonType_def pushed_def
        exampleHeap_def cells_def vtx_def pln_def pgn_def Vector_defs Plane_EPSILON_def code_defs)

text \<open>
  Claim C8. The tree that \<^verbatim>\<open>new Node(polygons)\<close> returns for a list that is not empty has
  a plane at every node, its children included, so \<^verbatim>\<open>invert\<close>, which reads
  \<^verbatim>\<open>this.plane\<close> at every node without a check, returns on it in any store. On
  \<^verbatim>\<open>new Node()\<close>, whose plane is null, \<^verbatim>\<open>invert\<close> throws a TypeError.
\<close>

theorem build_gives_planes:
  fixes h h' :: "'s Heap"
  assumes "Node_new n ps h = Some (Inr t, h')" "ps \<noteq> []"
  shows "hasPlanes t \<and> (\<forall>g :: 's Heap. \<exists>t' g'. Node_invert t g = (Inr t', g'))
     \<and> (\<forall>g :: 's Heap. Node_invert Node_empty g = (Inl TypeError, g))"
proof -
  have hp: "hasPlanes t"
    using build_hasPlanes[OF assms(1)[unfolded Node_new_def] assms(2)] by (simp add: Node_empty_def)
  have "\<exists>t' g'. Node_invert t g = (Inr t', g')" for g :: "'s Heap"
    using Node_invert_applyFlips[OF hp, of g] by blast
  then show ?thesis
    using hp by (simp add: Node_invert_empty)
qed

theorem build_gives_planes_witness:
  "hasPlanes (Node (Some 6) (Some (Node (Some 7) None None [0]))
                  (Some (Node (Some 8) None None [4])) [3])
   \<and> (\<exists>t' g'. Node_invert (Node (Some 6) (Some (Node (Some 7) None None [0]))
                  (Some (Node (Some 8) None None [4])) [3]) exampleHeap = (Inr t', g'))
   \<and> Node_invert Node_empty exampleHeap = (Inl TypeError, exampleHeap)"
proof -
  let ?t = "Node (Some 6) (Some (Node (Some 7) None None [0])) (Some (Node (Some 8) None None [4])) [3]"
  from ex_build obtain h1 where b: "Node_new 2 [3, 0, 4] exampleHeap = Some (Inr ?t, h1)" by blast
  have ne: "[3, 0, 4] \<noteq> ([] :: nat list)" by simp
  from build_gives_planes[OF b ne] show ?thesis by blast
qed

text \<open>
  Claim C6. On a tree that \<^verbatim>\<open>new Node(polygons)\<close> returns for a list that is not
  empty, \<^verbatim>\<open>invert\<close> called twice returns both times, and the second call gives back the
  tree and the store of before the first. So \<^verbatim>\<open>allPolygons\<close> lists the same polygons,
  with the same vertex positions, after as before, as multisets.
\<close>

theorem invert_twice:
  fixes h h0 h1 :: "'s Heap"
  assumes "Node_new n ps h0 = Some (Inr t, h1)" "ps \<noteq> []"
  shows "\<exists>t1 h2 t2 h3. Node_invert t h = (Inr t1, h2) \<and> Node_invert t1 h2 = (Inr t2, h3)
     \<and> mset (map (polygonPositions h3) (Node_allPolygons t2))
         = mset (map (polygonPositions h) (Node_allPolygons t))
     \<and> t2 = t \<and> h3 = h"
proof -
  have "hasPlanes t"
    using build_hasPlanes[OF assms(1)[unfolded Node_new_def] assms(2)] by (simp add: Node_empty_def)
  from Node_invert_twice[OF this, of h] show ?thesis by auto
qed

theorem invert_twice_witness:
  "\<exists>h1 h2 :: nat Heap. Node_invert (Node (Some 6) (Some (Node (Some 7) None None [0]))
                  (Some (Node (Some 8) None None [4])) [3]) h1
            = (Inr (Node (Some 6) (Some (Node (Some 8) None None [4]))
                  (Some (Node (Some 7) None None [0])) [3]), h2)
     \<and> Node_invert (Node (Some 6) (Some (Node (Some 8) None None [4]))
                  (Some (Node (Some 7) None None [0])) [3]) h2
            = (Inr (Node (Some 6) (Some (Node (Some 7) None None [0]))
                  (Some (Node (Some 8) None None [4])) [3]), h1)"
proof -
  let ?t = "Node (Some 6) (Some (Node (Some 7) None None [0])) (Some (Node (Some 8) None None [4])) [3]"
  from ex_build obtain h1 where b: "Node_new 2 [3, 0, 4] exampleHeap = Some (Inr ?t, h1)" by blast
  have ne: "[3, 0, 4] \<noteq> ([] :: nat list)" by simp
  from invert_twice[OF b ne, of h1] obtain t1 h2 where
    i: "Node_invert ?t h1 = (Inr t1, h2)" "Node_invert t1 h2 = (Inr ?t, h1)"
    by blast
  have "t1 = mirror ?t" using i(1) Node_invert_applyFlips[of ?t h1] by simp
  then have "t1 = Node (Some 6) (Some (Node (Some 8) None None [4]))
                  (Some (Node (Some 7) None None [0])) [3]" by simp
  then show ?thesis using i by blast
qed

section \<open>The frame of the operators\<close>

lemma frameInv_refl: "frameInv h h"
  by (simp add: frameInv_def unchangedFrom_def newClosed_def)

lemma newPolygons_mono:
  "newPolygons h0 h ps \<Longrightarrow> polygonN h \<le> polygonN h' \<Longrightarrow> newPolygons h0 h' ps"
  by (fastforce simp: newPolygons_def)

lemma newTree_mono:
  "newTree h0 h t \<Longrightarrow> polygonN h \<le> polygonN h' \<Longrightarrow> newTree h0 h' t"
  by (auto simp: newTree_def intro: newPolygons_mono)

lemma newPolygons_simps [simp]:
  "newPolygons h0 h []"
  "newPolygons h0 h (p # ps) = (polygonN h0 \<le> p \<and> p < polygonN h \<and> newPolygons h0 h ps)"
  "newPolygons h0 h (ps @ qs) = (newPolygons h0 h ps \<and> newPolygons h0 h qs)"
  by (auto simp: newPolygons_def)

lemma after_refl: "frameInv h0 h \<Longrightarrow> after h0 h h"
  by (simp add: after_def)

lemma after_trans: "after h0 h h1 \<Longrightarrow> after h0 h1 h2 \<Longrightarrow> after h0 h h2"
  by (simp add: after_def)

lemma frameInv_vertex_alloc:
  "frameInv h0 h \<Longrightarrow>
   frameInv h0 (h\<lparr>vertexH := (vertexH h)(vertexN h := x), vertexN := Suc (vertexN h)\<rparr>)"
  by (simp add: frameInv_def unchangedFrom_def newClosed_def)

lemma frameInv_array_alloc:
  "frameInv h0 h \<Longrightarrow> \<forall>v\<in>set vs. vertexN h0 \<le> v \<Longrightarrow>
   frameInv h0 (h\<lparr>arrayH := (arrayH h)(arrayN h := vs), arrayN := Suc (arrayN h)\<rparr>)"
  by (auto simp: frameInv_def unchangedFrom_def newClosed_def less_Suc_eq)

lemma frameInv_plane_alloc:
  "frameInv h0 h \<Longrightarrow>
   frameInv h0 (h\<lparr>planeH := (planeH h)(planeN h := x), planeN := Suc (planeN h)\<rparr>)"
  by (simp add: frameInv_def unchangedFrom_def newClosed_def)

lemma frameInv_polygon_alloc:
  "frameInv h0 h \<Longrightarrow> arrayN h0 \<le> a \<Longrightarrow> a < arrayN h \<Longrightarrow> planeN h0 \<le> q \<Longrightarrow>
   frameInv h0 (h\<lparr>polygonH := (polygonH h)
       (polygonN h := \<lparr>Polygon_vertices = a, Polygon_shared = sh, Polygon_plane = q\<rparr>),
      polygonN := Suc (polygonN h)\<rparr>)"
  by (auto simp: frameInv_def unchangedFrom_def newClosed_def less_Suc_eq)

lemma frameInv_applyFlips:
  assumes "frameInv h0 h" "\<forall>a\<in>#A. arrayN h0 \<le> a" "\<forall>v\<in>#V. vertexN h0 \<le> v"
    "\<forall>q\<in>#P. planeN h0 \<le> q"
  shows "frameInv h0 (applyFlips A V P h)"
proof -
  have a: "count A a = 0" if "a < arrayN h0" for a
    using assms(2) that by (metis count_eq_zero_iff not_le)
  have v: "count V v = 0" if "v < vertexN h0" for v
    using assms(3) that by (metis count_eq_zero_iff not_le)
  have q: "count P q = 0" if "q < planeN h0" for q
    using assms(4) that by (metis count_eq_zero_iff not_le)
  show ?thesis
    using assms(1) unfolding frameInv_def unchangedFrom_def newClosed_def
    by (simp add: a v q)
qed


lemma Vertex_new_frame:
  assumes "frameInv h0 h" "Vertex_new x n h = (v, h')"
  shows "frameInv h0 h' \<and> vertexN h0 \<le> v \<and> polygonN h' = polygonN h \<and> polygonH h' = polygonH h
     \<and> arrayN h' = arrayN h \<and> arrayH h' = arrayH h \<and> planeN h' = planeN h \<and> planeH h' = planeH h"
proof -
  have "vertexN h0 \<le> vertexN h" using assms(1) by (simp add: frameInv_def unchangedFrom_def)
  then show ?thesis
    using assms frameInv_vertex_alloc[OF assms(1)] by (auto simp: Vertex_new_def)
qed

lemma Vertex_clone_frame:
  assumes "frameInv h0 h" "Vertex_clone x h = (v, h')"
  shows "frameInv h0 h' \<and> vertexN h0 \<le> v \<and> polygonN h' = polygonN h \<and> polygonH h' = polygonH h
     \<and> arrayN h' = arrayN h \<and> arrayH h' = arrayH h \<and> planeN h' = planeN h \<and> planeH h' = planeH h"
  using assms unfolding Vertex_clone_def by (rule Vertex_new_frame)

lemma Vertex_interpolate_frame:
  assumes "frameInv h0 h" "Vertex_interpolate x y t h = (v, h')"
  shows "frameInv h0 h' \<and> vertexN h0 \<le> v \<and> polygonN h' = polygonN h \<and> polygonH h' = polygonH h
     \<and> arrayN h' = arrayN h \<and> arrayH h' = arrayH h \<and> planeN h' = planeN h \<and> planeH h' = planeH h"
  using assms unfolding Vertex_interpolate_def by (rule Vertex_new_frame)

lemma cloneVertices_frame:
  "frameInv h0 h \<Longrightarrow> cloneVertices vs h = (cs, h') \<Longrightarrow>
   frameInv h0 h' \<and> (\<forall>v\<in>set cs. vertexN h0 \<le> v) \<and> polygonN h' = polygonN h
   \<and> polygonH h' = polygonH h \<and> arrayN h' = arrayN h \<and> arrayH h' = arrayH h
   \<and> planeN h' = planeN h \<and> planeH h' = planeH h"
proof (induction vs arbitrary: h cs h')
  case Nil
  then show ?case by simp
next
  case (Cons v vs)
  obtain c h1 where c: "Vertex_clone v h = (c, h1)" by (cases "Vertex_clone v h")
  obtain cs' h2 where r: "cloneVertices vs h1 = (cs', h2)" by (cases "cloneVertices vs h1")
  note f1 = Vertex_clone_frame[OF Cons.prems(1) c]
  from f1 have i1: "frameInv h0 h1" by simp
  note f2 = Cons.IH[OF i1 r]
  have "cs = c # cs'" "h' = h2" using Cons.prems(2) c r by simp_all
  then show ?case using f1 f2 by simp
qed

lemma Array_new_frame:
  assumes "frameInv h0 h" "\<forall>v\<in>set vs. vertexN h0 \<le> v" "Array_new vs h = (a, h')"
  shows "frameInv h0 h' \<and> arrayN h0 \<le> a \<and> a < arrayN h' \<and> arrayH h' a = vs
     \<and> polygonN h' = polygonN h \<and> polygonH h' = polygonH h \<and> vertexH h' = vertexH h"
proof -
  have "arrayN h0 \<le> arrayN h" using assms(1) by (simp add: frameInv_def unchangedFrom_def)
  then show ?thesis
    using assms(3) frameInv_array_alloc[OF assms(1,2)] by (auto simp: Array_new_def)
qed

lemma Plane_new_frame:
  assumes "frameInv h0 h" "Plane_new n d h = (q, h')"
  shows "frameInv h0 h' \<and> planeN h0 \<le> q \<and> polygonN h' = polygonN h \<and> polygonH h' = polygonH h
     \<and> arrayN h' = arrayN h \<and> arrayH h' = arrayH h \<and> vertexH h' = vertexH h"
proof -
  have "planeN h0 \<le> planeN h" using assms(1) by (simp add: frameInv_def unchangedFrom_def)
  then show ?thesis
    using assms(2) frameInv_plane_alloc[OF assms(1)] by (auto simp: Plane_new_def)
qed

lemma Polygon_new_frame:
  assumes "frameInv h0 h" "arrayN h0 \<le> a" "a < arrayN h"
  shows "post (\<lambda>p h'. after h0 h h' \<and> polygonN h0 \<le> p \<and> p < polygonN h') (frameInv h0)
           (Polygon_new a sh h)"
proof (cases "length (arrayH h a) < 3")
  case True
  then show ?thesis using assms(1) by (simp add: Polygon_new_def)
next
  case False
  let ?vs = "arrayH h a"
  obtain q h1 where q: "Plane_fromPoints (Vertex_pos (vertexH h (?vs ! 0)))
        (Vertex_pos (vertexH h (?vs ! 1))) (Vertex_pos (vertexH h (?vs ! 2))) h = (q, h1)"
    by (cases "Plane_fromPoints (Vertex_pos (vertexH h (?vs ! 0)))
        (Vertex_pos (vertexH h (?vs ! 1))) (Vertex_pos (vertexH h (?vs ! 2))) h")
  note f1 = Plane_new_frame[OF assms(1) q[unfolded Plane_fromPoints_def Let_def]]
  have n0: "polygonN h0 \<le> polygonN h" using assms(1) by (simp add: frameInv_def unchangedFrom_def)
  have "frameInv h0 (h1\<lparr>polygonH := (polygonH h1)
       (polygonN h1 := \<lparr>Polygon_vertices = a, Polygon_shared = sh, Polygon_plane = q\<rparr>),
      polygonN := Suc (polygonN h1)\<rparr>)"
    using f1 assms(2,3) by (intro frameInv_polygon_alloc) simp_all
  then show ?thesis
    using False q f1 n0 by (simp add: Polygon_new_def after_def)
qed

lemma Polygon_clone_frame:
  assumes "frameInv h0 h"
  shows "post (\<lambda>p h'. after h0 h h' \<and> polygonN h0 \<le> p \<and> p < polygonN h') (frameInv h0)
           (Polygon_clone this h)"
proof -
  obtain cs h1 where c: "cloneVertices (arrayH h (Polygon_vertices (polygonH h this))) h = (cs, h1)"
    by (cases "cloneVertices (arrayH h (Polygon_vertices (polygonH h this))) h")
  obtain a h2 where a: "Array_new cs h1 = (a, h2)" by (cases "Array_new cs h1")
  note f1 = cloneVertices_frame[OF assms c]
  note f2 = Array_new_frame[OF _ _ a, of h0]
  have i2: "frameInv h0 h2" "arrayN h0 \<le> a" "a < arrayN h2" "polygonN h2 = polygonN h"
    using f1 f2 by simp_all
  have "post (\<lambda>p h'. after h0 h2 h' \<and> polygonN h0 \<le> p \<and> p < polygonN h') (frameInv h0)
           (Polygon_new a (Polygon_shared (polygonH h2 this)) h2)"
    by (rule Polygon_new_frame[OF i2(1-3)])
  then show ?thesis
    unfolding Polygon_clone_def c a prod.case Let_def
    by (rule post_mono) (simp_all add: after_def i2(4))
qed

lemma Polygon_flip_frame:
  assumes "frameInv h0 h" "polygonN h0 \<le> p" "p < polygonN h"
  shows "frameInv h0 (Polygon_flip p h) \<and> polygonN (Polygon_flip p h) = polygonN h"
proof -
  have c: "arrayN h0 \<le> Polygon_vertices (polygonH h p)"
    "\<forall>v\<in>set (arrayH h (Polygon_vertices (polygonH h p))). vertexN h0 \<le> v"
    "planeN h0 \<le> Polygon_plane (polygonH h p)"
    using assms unfolding frameInv_def newClosed_def by auto
  show ?thesis
    unfolding Polygon_flip_applyFlips
    using frameInv_applyFlips[OF assms(1), of "{#Polygon_vertices (polygonH h p)#}"
        "mset (arrayH h (Polygon_vertices (polygonH h p)))" "{#Polygon_plane (polygonH h p)#}"] c
    by simp
qed

lemma fold_Polygon_flip_frame:
  "frameInv h0 h \<Longrightarrow> newPolygons h0 h ps \<Longrightarrow>
   frameInv h0 (fold Polygon_flip ps h) \<and> polygonN (fold Polygon_flip ps h) = polygonN h"
proof (induction ps arbitrary: h)
  case Nil
  then show ?case by simp
next
  case (Cons p ps)
  from Cons.prems have p: "polygonN h0 \<le> p" "p < polygonN h" "newPolygons h0 h ps" by simp_all
  note f1 = Polygon_flip_frame[OF Cons.prems(1) p(1,2)]
  have "newPolygons h0 (Polygon_flip p h) ps"
    using p(3) f1 by (auto intro: newPolygons_mono)
  from Cons.IH[OF _ this] f1 show ?case by simp
qed

lemma Plane_flip_frame:
  "frameInv h0 h \<Longrightarrow> planeN h0 \<le> q \<Longrightarrow>
   frameInv h0 (Plane_flip q h) \<and> polygonN (Plane_flip q h) = polygonN h"
  unfolding Plane_flip_applyFlips using frameInv_applyFlips[of h0 h "{#}" "{#}" "{#q#}"] by simp


lemma spanLoop_newVertices:
  "frameInv h0 h \<Longrightarrow> \<forall>i\<in>set ixs. vertexN h0 \<le> vs ! i \<Longrightarrow>
   \<forall>v\<in>set f. vertexN h0 \<le> v \<Longrightarrow> \<forall>v\<in>set b. vertexN h0 \<le> v \<Longrightarrow>
   spanLoop pl vs types ixs f b h = (f', b', h') \<Longrightarrow>
   frameInv h0 h' \<and> (\<forall>v\<in>set f'. vertexN h0 \<le> v) \<and> (\<forall>v\<in>set b'. vertexN h0 \<le> v)"
proof (induction ixs arbitrary: f b h)
  case Nil
  then show ?case by simp
next
  case (Cons i ixs)
  let ?ti = "types ! i" and ?tj = "types ! ((i + 1) mod length vs)"
  let ?vi = "vs ! i" and ?vj = "vs ! ((i + 1) mod length vs)"
  have vi: "vertexN h0 \<le> ?vi" using Cons.prems(2) by simp
  define f1 where "f1 = (if ?ti \<noteq> BACK then f @ [?vi] else f)"
  obtain b1 h1 where s1: "(if ?ti \<noteq> FRONT then
                        (if ?ti \<noteq> BACK then (let (c, h') = Vertex_clone ?vi h in (b @ [c], h'))
                         else (b @ [?vi], h))
                      else (b, h)) = (b1, h1)"
    by (cases "(if ?ti \<noteq> FRONT then
                        (if ?ti \<noteq> BACK then (let (c, h') = Vertex_clone ?vi h in (b @ [c], h'))
                         else (b @ [?vi], h))
                      else (b, h))")
  have p1: "frameInv h0 h1 \<and> (\<forall>v\<in>set b1. vertexN h0 \<le> v)"
  proof (cases "?ti \<noteq> FRONT \<and> ?ti \<noteq> BACK")
    case True
    obtain c hc where c: "Vertex_clone ?vi h = (c, hc)" by (cases "Vertex_clone ?vi h")
    from s1 True c have "b1 = b @ [c]" "h1 = hc" by simp_all
    then show ?thesis using Vertex_clone_frame[OF Cons.prems(1) c] Cons.prems(4) by simp
  next
    case False
    then show ?thesis using s1 Cons.prems(1,4) vi by (auto split: if_splits)
  qed
  have pf1: "\<forall>v\<in>set f1. vertexN h0 \<le> v" using Cons.prems(3) vi by (simp add: f1_def)
  obtain f2 b2 h2 where s2: "(if (?ti OR ?tj) = SPANNING then
                            (let t = (Plane_w pl - Vector_dot (Plane_normal pl) (Vertex_pos (vertexH h1 ?vi)))
                                     / Vector_dot (Plane_normal pl)
                                         (Vector_minus (Vertex_pos (vertexH h1 ?vj)) (Vertex_pos (vertexH h1 ?vi)));
                                 (v, h') = Vertex_interpolate ?vi ?vj t h1;
                                 (c, h'') = Vertex_clone v h'
                             in (f1 @ [v], b1 @ [c], h''))
                          else (f1, b1, h1)) = (f2, b2, h2)"
    by (cases "(if (?ti OR ?tj) = SPANNING then
                            (let t = (Plane_w pl - Vector_dot (Plane_normal pl) (Vertex_pos (vertexH h1 ?vi)))
                                     / Vector_dot (Plane_normal pl)
                                         (Vector_minus (Vertex_pos (vertexH h1 ?vj)) (Vertex_pos (vertexH h1 ?vi)));
                                 (v, h') = Vertex_interpolate ?vi ?vj t h1;
                                 (c, h'') = Vertex_clone v h'
                             in (f1 @ [v], b1 @ [c], h''))
                          else (f1, b1, h1))")
  have p2: "frameInv h0 h2 \<and> (\<forall>v\<in>set f2. vertexN h0 \<le> v) \<and> (\<forall>v\<in>set b2. vertexN h0 \<le> v)"
  proof (cases "(?ti OR ?tj) = SPANNING")
    case True
    let ?t = "(Plane_w pl - Vector_dot (Plane_normal pl) (Vertex_pos (vertexH h1 ?vi)))
                / Vector_dot (Plane_normal pl)
                    (Vector_minus (Vertex_pos (vertexH h1 ?vj)) (Vertex_pos (vertexH h1 ?vi)))"
    obtain v hv where v: "Vertex_interpolate ?vi ?vj ?t h1 = (v, hv)"
      by (cases "Vertex_interpolate ?vi ?vj ?t h1")
    obtain c hc where c: "Vertex_clone v hv = (c, hc)" by (cases "Vertex_clone v hv")
    note fv = Vertex_interpolate_frame[OF _ v, of h0]
    note fc = Vertex_clone_frame[OF _ c, of h0]
    from s2 True v c have "f2 = f1 @ [v]" "b2 = b1 @ [c]" "h2 = hc" by (simp_all add: Let_def)
    then show ?thesis using fv fc p1 pf1 by simp
  next
    case False
    then show ?thesis using s2 p1 pf1 by simp
  qed
  have rec: "spanLoop pl vs types ixs f2 b2 h2 = (f', b', h')"
    using Cons.prems(5) s1 s2 unfolding spanLoop.simps Let_def f1_def by simp
  show ?case
    using Cons.IH[OF _ _ _ _ rec] p2 Cons.prems(2) by simp
qed

lemma pushChain_frame:
  assumes "frameInv h0 h" "\<forall>v\<in>set chain. vertexN h0 \<le> v"
  shows "post (\<lambda>out h'. after h0 h h' \<and> newPolygons h0 h' (map snd out)) (frameInv h0)
           (pushChain tg chain sh h)"
proof (cases "3 \<le> length chain")
  case False
  then show ?thesis using assms(1) by (simp add: pushChain_def after_def)
next
  case True
  obtain a h1 where a: "Array_new chain h = (a, h1)" by (cases "Array_new chain h")
  note f1 = Array_new_frame[OF assms a]
  have "post (\<lambda>p h'. after h0 h1 h' \<and> polygonN h0 \<le> p \<and> p < polygonN h') (frameInv h0)
           (Polygon_new a sh h1)"
    using f1 by (intro Polygon_new_frame) simp_all
  then have "post (\<lambda>p h'. after h0 h h' \<and> newPolygons h0 h' (map snd [(tg, p)])) (frameInv h0)
           (Polygon_new a sh h1)"
    by (rule post_mono) (use f1 in \<open>simp_all add: after_def\<close>)
  moreover have "pushChain tg chain sh h =
    (case Polygon_new a sh h1 of (Inl e, h2) \<Rightarrow> (Inl e, h2) | (Inr p, h2) \<Rightarrow> (Inr [(tg, p)], h2))"
    using True by (simp add: pushChain_def a)
  ultimately show ?thesis
    by (simp only: post_bind post_simps)
qed


lemma Plane_splitPolygon_frame:
  assumes inv: "frameInv h0 h" and p: "polygonN h0 \<le> p" "p < polygonN h"
  shows "post (\<lambda>out h'. after h0 h h' \<and> newPolygons h0 h' (map snd out)) (frameInv h0)
           (Plane_splitPolygon q p h)"
proof -
  let ?pl = "planeH h q"
  let ?vs = "arrayH h (Polygon_vertices (polygonH h p))"
  let ?types = "vertexTypes ?pl ?vs h"
  let ?pt = "polygonType ?types"
  have vs: "\<forall>v\<in>set ?vs. vertexN h0 \<le> v"
    using inv p unfolding frameInv_def newClosed_def by auto
  have same: "after h0 h h \<and> newPolygons h0 h (map snd [(tg, p)])" for tg
    using inv p by (simp add: after_def)
  consider "?pt = COPLANAR" | "?pt = FRONT" | "?pt = BACK" | "?pt = SPANNING"
    | "?pt \<noteq> COPLANAR" "?pt \<noteq> FRONT" "?pt \<noteq> BACK" "?pt \<noteq> SPANNING"
    by blast
  then show ?thesis
  proof cases
    case 1
    then show ?thesis using same by (simp add: Plane_splitPolygon_def Let_def)
  next
    case 2
    then show ?thesis using same by (simp add: Plane_splitPolygon_def Let_def code_defs)
  next
    case 3
    then show ?thesis using same by (simp add: Plane_splitPolygon_def Let_def code_defs)
  next
    case 5
    then show ?thesis using inv by (simp add: Plane_splitPolygon_def Let_def after_def)
  next
    case 4
    obtain f b h1 where loop: "spanLoop ?pl ?vs ?types [0..<length ?vs] [] [] h = (f, b, h1)"
      by (cases "spanLoop ?pl ?vs ?types [0..<length ?vs] [] [] h")
    have ix: "\<forall>i\<in>set [0..<length ?vs]. vertexN h0 \<le> ?vs ! i" using vs by simp
    from spanLoop_newVertices[OF inv ix _ _ loop]
    have l: "frameInv h0 h1" "\<forall>v\<in>set f. vertexN h0 \<le> v" "\<forall>v\<in>set b. vertexN h0 \<le> v"
      by simp_all
    have n1: "polygonN h1 = polygonN h" using spanLoop_frame[OF loop] by simp
    have unf: "Plane_splitPolygon q p h =
      (case pushChain Front f (Polygon_shared (polygonH h1 p)) h1 of
              (Inl e, h2) \<Rightarrow> (Inl e, h2)
            | (Inr o1, h2) \<Rightarrow>
                (case pushChain Back b (Polygon_shared (polygonH h2 p)) h2 of
                   (Inl e, h3) \<Rightarrow> (Inl e, h3)
                 | (Inr o2, h3) \<Rightarrow> (Inr (o1 @ o2), h3)))"
      using 4 unfolding Plane_splitPolygon_def Let_def loop
      by (simp add: code_defs)
    show ?thesis
      unfolding unf post_bind
    proof (rule post_mono[OF pushChain_frame[OF l(1,2)]])
      fix o1 :: "(target \<times> nat) list" and h2 :: "'a Heap"
      assume a1: "after h0 h1 h2 \<and> newPolygons h0 h2 (map snd o1)"
      then have i2: "frameInv h0 h2" by (simp add: after_def)
      show "post (\<lambda>o2 h3. post (\<lambda>out h'. after h0 h h' \<and> newPolygons h0 h' (map snd out))
                (frameInv h0) (Inr (o1 @ o2), h3)) (frameInv h0)
              (pushChain Back b (Polygon_shared (polygonH h2 p)) h2)"
      proof (rule post_mono[OF pushChain_frame[OF i2 l(3)]])
        fix o2 :: "(target \<times> nat) list" and h3 :: "'a Heap"
        assume a2: "after h0 h2 h3 \<and> newPolygons h0 h3 (map snd o2)"
        have "newPolygons h0 h3 (map snd o1)"
          using a1 a2 by (auto simp: after_def intro: newPolygons_mono)
        then show "post (\<lambda>out h'. after h0 h h' \<and> newPolygons h0 h' (map snd out))
                (frameInv h0) (Inr (o1 @ o2), h3)"
          using a1 a2 n1 by (simp add: after_def)
      qed simp
    qed simp
  qed
qed

lemma splitAll_frame:
  "frameInv h0 h \<Longrightarrow> newPolygons h0 h ps \<Longrightarrow>
   post (\<lambda>out h'. after h0 h h' \<and> newPolygons h0 h' (map snd out)) (frameInv h0) (splitAll q ps h)"
proof (induction ps arbitrary: h)
  case Nil
  then show ?case by (simp add: after_def)
next
  case (Cons p ps)
  from Cons.prems(2) have p: "polygonN h0 \<le> p" "p < polygonN h" "newPolygons h0 h ps" by simp_all
  show ?case
    unfolding splitAll.simps post_bind
  proof (rule post_mono[OF Plane_splitPolygon_frame[OF Cons.prems(1) p(1,2)]])
    fix o1 :: "(target \<times> nat) list" and h1 :: "'a Heap"
    assume a1: "after h0 h h1 \<and> newPolygons h0 h1 (map snd o1)"
    then have i1: "frameInv h0 h1" and n1: "newPolygons h0 h1 ps"
      using p(3) by (auto simp: after_def intro: newPolygons_mono)
    show "post (\<lambda>o2 h2. post (\<lambda>out h'. after h0 h h' \<and> newPolygons h0 h' (map snd out))
              (frameInv h0) (Inr (o1 @ o2), h2)) (frameInv h0) (splitAll q ps h1)"
    proof (rule post_mono[OF Cons.IH[OF i1 n1]])
      fix o2 :: "(target \<times> nat) list" and h2 :: "'a Heap"
      assume a2: "after h0 h1 h2 \<and> newPolygons h0 h2 (map snd o2)"
      have "newPolygons h0 h2 (map snd o1)"
        using a1 a2 by (auto simp: after_def intro: newPolygons_mono)
      then show "post (\<lambda>out h'. after h0 h h' \<and> newPolygons h0 h' (map snd out))
              (frameInv h0) (Inr (o1 @ o2), h2)"
        using a1 a2 by (simp add: after_def)
    qed simp
  qed simp
qed

lemma newPolygons_pushed:
  "newPolygons h0 h (map snd out) \<Longrightarrow> newPolygons h0 h (pushed ts out)"
  by (auto simp: newPolygons_def pushed_def)


lemma newTree_Node [simp]:
  "newTree h0 h (Node pl fr bk ps) =
     (newPolygons h0 h ps \<and> (\<forall>q. pl = Some q \<longrightarrow> planeN h0 \<le> q)
      \<and> (\<forall>n. fr = Some n \<longrightarrow> newTree h0 h n) \<and> (\<forall>n. bk = Some n \<longrightarrow> newTree h0 h n))"
  by (cases pl; cases fr; cases bk) (auto simp: newTree_def)

lemma child_post:
  assumes "\<And>n. c = Some n \<Longrightarrow> post (\<lambda>n' h'. Q (Some n') h') E (F n h1)" "c = None \<Longrightarrow> Q None h1"
  shows "post Q E (case c of
                     None \<Rightarrow> (Inr None, h1)
                   | Some n \<Rightarrow> (case F n h1 of
                                  (Inl e, h') \<Rightarrow> (Inl e, h')
                                | (Inr n', h') \<Rightarrow> (Inr (Some n'), h')))"
proof (cases c)
  case None
  then show ?thesis using assms(2) by simp
next
  case (Some n)
  show ?thesis unfolding Some option.case post_bind
    by (rule post_mono[OF assms(1)[OF Some]]) simp_all
qed

lemma Node_clipPolygons_frame:
  fixes h :: "'s Heap"
  shows "frameInv h0 h \<Longrightarrow> newPolygons h0 h ps \<Longrightarrow>
   post (\<lambda>ps' h'. after h0 h h' \<and> newPolygons h0 h' ps') (frameInv h0) (Node_clipPolygons t ps h)"
proof (induction t arbitrary: ps h)
  case (Node pl fr bk own)
  have rec: "post (\<lambda>ps' h'. after h0 hx h' \<and> newPolygons h0 h' ps') (frameInv h0)
               (Node_clipPolygons n xs hx)"
    if "fr = Some n \<or> bk = Some n" "frameInv h0 hx" "newPolygons h0 hx xs"
    for n xs and hx :: "'s Heap"
    using that Node.IH(1)[of n hx xs] Node.IH(2)[of n hx xs] by auto
  show ?case
  proof (cases pl)
    case None
    then show ?thesis using Node.prems by (simp add: after_def)
  next
    case (Some q)
    show ?thesis
      unfolding Node_clipPolygons.simps Some option.case post_bind
    proof (rule post_mono[OF splitAll_frame[OF Node.prems]])
      fix out :: "(target \<times> nat) list" and h1 :: "'s Heap"
      assume a1: "after h0 h h1 \<and> newPolygons h0 h1 (map snd out)"
      then have i1: "frameInv h0 h1" by (simp add: after_def)
      have nf: "newPolygons h0 h1 (pushed [CoplanarFront, Front] out)"
        and nb: "newPolygons h0 h1 (pushed [CoplanarBack, Back] out)"
        using a1 by (auto intro: newPolygons_pushed)
      have frn: "post (\<lambda>fs h2. after h0 h1 h2 \<and> newPolygons h0 h2 fs) (frameInv h0)
           (case fr of None \<Rightarrow> (Inr (pushed [CoplanarFront, Front] out), h1)
                     | Some n \<Rightarrow> Node_clipPolygons n (pushed [CoplanarFront, Front] out) h1)"
        using rec[OF _ i1 nf] i1 nf by (cases fr) (simp_all add: after_def)
      show "post (\<lambda>fs h2. post (\<lambda>bs h3. post (\<lambda>ps' h'. after h0 h h' \<and> newPolygons h0 h' ps')
                 (frameInv h0) (Inr (fs @ bs), h3)) (frameInv h0)
                 (case bk of None \<Rightarrow> (Inr [], h2)
                    | Some n \<Rightarrow> Node_clipPolygons n (pushed [CoplanarBack, Back] out) h2))
              (frameInv h0)
              (case fr of None \<Rightarrow> (Inr (pushed [CoplanarFront, Front] out), h1)
                     | Some n \<Rightarrow> Node_clipPolygons n (pushed [CoplanarFront, Front] out) h1)"
      proof (rule post_mono[OF frn])
        fix fs and h2 :: "'s Heap"
        assume a2: "after h0 h1 h2 \<and> newPolygons h0 h2 fs"
        then have i2: "frameInv h0 h2" by (simp add: after_def)
        have nb2: "newPolygons h0 h2 (pushed [CoplanarBack, Back] out)"
          using nb a2 by (auto simp: after_def intro: newPolygons_mono)
        have bck: "post (\<lambda>bs h3. after h0 h2 h3 \<and> newPolygons h0 h3 bs) (frameInv h0)
           (case bk of None \<Rightarrow> (Inr [], h2)
                     | Some n \<Rightarrow> Node_clipPolygons n (pushed [CoplanarBack, Back] out) h2)"
          using rec[OF _ i2 nb2] i2 by (cases bk) (simp_all add: after_def)
        show "post (\<lambda>bs h3. post (\<lambda>ps' h'. after h0 h h' \<and> newPolygons h0 h' ps')
                 (frameInv h0) (Inr (fs @ bs), h3)) (frameInv h0)
                 (case bk of None \<Rightarrow> (Inr [], h2)
                    | Some n \<Rightarrow> Node_clipPolygons n (pushed [CoplanarBack, Back] out) h2)"
        proof (rule post_mono[OF bck])
          fix bs and h3 :: "'s Heap"
          assume a3: "after h0 h2 h3 \<and> newPolygons h0 h3 bs"
          have "newPolygons h0 h3 fs" using a2 a3 by (auto simp: after_def intro: newPolygons_mono)
          then show "post (\<lambda>ps' h'. after h0 h h' \<and> newPolygons h0 h' ps')
                 (frameInv h0) (Inr (fs @ bs), h3)"
            using a1 a2 a3 by (simp add: after_def)
        qed simp
      qed simp
    qed simp
  qed
qed


lemma after_newTree: "newTree h0 h t \<Longrightarrow> after h0 h h' \<Longrightarrow> newTree h0 h' t"
  by (auto simp: after_def intro: newTree_mono)

lemma after_newPolygons: "newPolygons h0 h ps \<Longrightarrow> after h0 h h' \<Longrightarrow> newPolygons h0 h' ps"
  by (auto simp: after_def intro: newPolygons_mono)

lemma Node_clipTo_frame:
  fixes h :: "'s Heap"
  shows "frameInv h0 h \<Longrightarrow> newTree h0 h t \<Longrightarrow>
   post (\<lambda>t' h'. after h0 h h' \<and> newTree h0 h' t') (frameInv h0) (Node_clipTo t bsp h)"
proof (induction t arbitrary: h)
  case (Node pl fr bk own)
  have rec: "post (\<lambda>t' h'. after h0 hx h' \<and> newTree h0 h' t') (frameInv h0) (Node_clipTo n bsp hx)"
    if "fr = Some n \<or> bk = Some n" "frameInv h0 hx" "newTree h0 hx n" for n and hx :: "'s Heap"
    using that Node.IH(1)[of n hx] Node.IH(2)[of n hx] by auto
  from Node.prems(2) have own: "newPolygons h0 h own" and pln: "\<forall>q. pl = Some q \<longrightarrow> planeN h0 \<le> q"
    and frT: "\<And>n. fr = Some n \<Longrightarrow> newTree h0 h n" and bkT: "\<And>n. bk = Some n \<Longrightarrow> newTree h0 h n"
    by simp_all
  show ?case
    unfolding Node_clipTo.simps post_bind
  proof (rule post_mono[OF Node_clipPolygons_frame[OF Node.prems(1) own]])
    fix ps' and h1 :: "'s Heap"
    assume a1: "after h0 h h1 \<and> newPolygons h0 h1 ps'"
    then have i1: "frameInv h0 h1" by (simp add: after_def)
    have frn: "post (\<lambda>c h2. after h0 h1 h2 \<and> (\<forall>n. c = Some n \<longrightarrow> newTree h0 h2 n)) (frameInv h0)
       (case fr of None \<Rightarrow> (Inr None, h1)
        | Some n \<Rightarrow> (case Node_clipTo n bsp h1 of (Inl e, h') \<Rightarrow> (Inl e, h')
                      | (Inr n', h') \<Rightarrow> (Inr (Some n'), h')))"
    proof (rule child_post)
      fix n assume n: "fr = Some n"
      show "post (\<lambda>n' h'. after h0 h1 h' \<and> (\<forall>n. Some n' = Some n \<longrightarrow> newTree h0 h' n))
              (frameInv h0) (Node_clipTo n bsp h1)"
        by (rule post_mono[OF rec[OF _ i1 after_newTree[OF frT[OF n]]]]) (use n a1 in simp_all)
    qed (use i1 in \<open>simp add: after_def\<close>)
    show "post (\<lambda>fr' h2. post (\<lambda>bk' h3. post (\<lambda>t' h'. after h0 h h' \<and> newTree h0 h' t')
               (frameInv h0) (Inr (Node pl fr' bk' ps'), h3)) (frameInv h0)
               (case bk of None \<Rightarrow> (Inr None, h2)
                | Some n \<Rightarrow> (case Node_clipTo n bsp h2 of (Inl e, h') \<Rightarrow> (Inl e, h')
                              | (Inr n', h') \<Rightarrow> (Inr (Some n'), h'))))
            (frameInv h0)
            (case fr of None \<Rightarrow> (Inr None, h1)
             | Some n \<Rightarrow> (case Node_clipTo n bsp h1 of (Inl e, h') \<Rightarrow> (Inl e, h')
                           | (Inr n', h') \<Rightarrow> (Inr (Some n'), h')))"
    proof (rule post_mono[OF frn])
      fix fr' and h2 :: "'s Heap"
      assume a2: "after h0 h1 h2 \<and> (\<forall>n. fr' = Some n \<longrightarrow> newTree h0 h2 n)"
      then have i2: "frameInv h0 h2" by (simp add: after_def)
      have a12: "after h0 h h2" using a1 a2 after_trans by blast
      have bck: "post (\<lambda>c h3. after h0 h2 h3 \<and> (\<forall>n. c = Some n \<longrightarrow> newTree h0 h3 n)) (frameInv h0)
         (case bk of None \<Rightarrow> (Inr None, h2)
          | Some n \<Rightarrow> (case Node_clipTo n bsp h2 of (Inl e, h') \<Rightarrow> (Inl e, h')
                        | (Inr n', h') \<Rightarrow> (Inr (Some n'), h')))"
      proof (rule child_post)
        fix n assume n: "bk = Some n"
        show "post (\<lambda>n' h'. after h0 h2 h' \<and> (\<forall>n. Some n' = Some n \<longrightarrow> newTree h0 h' n))
                (frameInv h0) (Node_clipTo n bsp h2)"
          by (rule post_mono[OF rec[OF _ i2 after_newTree[OF bkT[OF n] a12]]]) (use n in simp_all)
      qed (use i2 in \<open>simp add: after_def\<close>)
      show "post (\<lambda>bk' h3. post (\<lambda>t' h'. after h0 h h' \<and> newTree h0 h' t')
               (frameInv h0) (Inr (Node pl fr' bk' ps'), h3)) (frameInv h0)
               (case bk of None \<Rightarrow> (Inr None, h2)
                | Some n \<Rightarrow> (case Node_clipTo n bsp h2 of (Inl e, h') \<Rightarrow> (Inl e, h')
                              | (Inr n', h') \<Rightarrow> (Inr (Some n'), h')))"
      proof (rule post_mono[OF bck])
        fix bk' and h3 :: "'s Heap"
        assume a3: "after h0 h2 h3 \<and> (\<forall>n. bk' = Some n \<longrightarrow> newTree h0 h3 n)"
        have a13: "after h0 h h3" using a12 a3 after_trans by blast
        have "newPolygons h0 h3 ps'" using a1 a2 a3 after_newPolygons by blast
        moreover have "\<forall>n. fr' = Some n \<longrightarrow> newTree h0 h3 n" using a2 a3 after_newTree by blast
        ultimately show "post (\<lambda>t' h'. after h0 h h' \<and> newTree h0 h' t')
               (frameInv h0) (Inr (Node pl fr' bk' ps'), h3)"
          using a13 a3 pln by simp
      qed simp
    qed simp
  qed simp
qed


lemma Node_invert_frame:
  fixes h :: "'s Heap"
  shows "frameInv h0 h \<Longrightarrow> newTree h0 h t \<Longrightarrow>
   post (\<lambda>t' h'. after h0 h h' \<and> newTree h0 h' t') (frameInv h0) (Node_invert t h)"
proof (induction t arbitrary: h)
  case (Node pl fr bk own)
  have rec: "post (\<lambda>t' h'. after h0 hx h' \<and> newTree h0 h' t') (frameInv h0) (Node_invert n hx)"
    if "fr = Some n \<or> bk = Some n" "frameInv h0 hx" "newTree h0 hx n" for n and hx :: "'s Heap"
    using that Node.IH(1)[of n hx] Node.IH(2)[of n hx] by auto
  from Node.prems(2) have own: "newPolygons h0 h own" and pln: "\<forall>q. pl = Some q \<longrightarrow> planeN h0 \<le> q"
    and frT: "\<And>n. fr = Some n \<Longrightarrow> newTree h0 h n" and bkT: "\<And>n. bk = Some n \<Longrightarrow> newTree h0 h n"
    by simp_all
  let ?h1 = "fold Polygon_flip own h"
  note f1 = fold_Polygon_flip_frame[OF Node.prems(1) own]
  have a01: "after h0 h ?h1" using f1 by (simp add: after_def)
  show ?case
  proof (cases pl)
    case None
    then show ?thesis using f1 by simp
  next
    case (Some q)
    let ?h2 = "Plane_flip q ?h1"
    have q: "planeN h0 \<le> q" using pln Some by simp
    note f2 = Plane_flip_frame[OF _ q, of ?h1]
    have i2: "frameInv h0 ?h2" using f1 f2 by simp
    have a02: "after h0 h ?h2" using f1 f2 by (simp add: after_def)
    have frn: "post (\<lambda>c h3. after h0 ?h2 h3 \<and> (\<forall>n. c = Some n \<longrightarrow> newTree h0 h3 n)) (frameInv h0)
       (case fr of None \<Rightarrow> (Inr None, ?h2)
        | Some n \<Rightarrow> (case Node_invert n ?h2 of (Inl e, h') \<Rightarrow> (Inl e, h')
                      | (Inr n', h') \<Rightarrow> (Inr (Some n'), h')))"
    proof (rule child_post)
      fix n assume n: "fr = Some n"
      show "post (\<lambda>n' h'. after h0 ?h2 h' \<and> (\<forall>n. Some n' = Some n \<longrightarrow> newTree h0 h' n))
              (frameInv h0) (Node_invert n ?h2)"
        by (rule post_mono[OF rec[OF _ i2 after_newTree[OF frT[OF n] a02]]]) (use n in simp_all)
    qed (use i2 in \<open>simp add: after_def\<close>)
    show ?thesis
      unfolding Node_invert.simps Let_def Some option.case post_bind
    proof (rule post_mono[OF frn])
      fix fr' and h3 :: "'s Heap"
      assume a3: "after h0 ?h2 h3 \<and> (\<forall>n. fr' = Some n \<longrightarrow> newTree h0 h3 n)"
      then have i3: "frameInv h0 h3" by (simp add: after_def)
      have a03: "after h0 h h3" using a02 a3 after_trans by blast
      have bck: "post (\<lambda>c h4. after h0 h3 h4 \<and> (\<forall>n. c = Some n \<longrightarrow> newTree h0 h4 n)) (frameInv h0)
         (case bk of None \<Rightarrow> (Inr None, h3)
          | Some n \<Rightarrow> (case Node_invert n h3 of (Inl e, h') \<Rightarrow> (Inl e, h')
                        | (Inr n', h') \<Rightarrow> (Inr (Some n'), h')))"
      proof (rule child_post)
        fix n assume n: "bk = Some n"
        show "post (\<lambda>n' h'. after h0 h3 h' \<and> (\<forall>n. Some n' = Some n \<longrightarrow> newTree h0 h' n))
                (frameInv h0) (Node_invert n h3)"
          by (rule post_mono[OF rec[OF _ i3 after_newTree[OF bkT[OF n] a03]]]) (use n in simp_all)
      qed (use i3 in \<open>simp add: after_def\<close>)
      show "post (\<lambda>bk' h4. post (\<lambda>t' h'. after h0 h h' \<and> newTree h0 h' t')
               (frameInv h0) (Inr (Node (Some q) bk' fr' own), h4)) (frameInv h0)
               (case bk of None \<Rightarrow> (Inr None, h3)
                | Some n \<Rightarrow> (case Node_invert n h3 of (Inl e, h') \<Rightarrow> (Inl e, h')
                              | (Inr n', h') \<Rightarrow> (Inr (Some n'), h')))"
      proof (rule post_mono[OF bck])
        fix bk' and h4 :: "'s Heap"
        assume a4: "after h0 h3 h4 \<and> (\<forall>n. bk' = Some n \<longrightarrow> newTree h0 h4 n)"
        have a04: "after h0 h h4" using a03 a4 after_trans by blast
        have "newPolygons h0 h4 own" using own a04 after_newPolygons by blast
        moreover have "\<forall>n. fr' = Some n \<longrightarrow> newTree h0 h4 n" using a3 a4 after_newTree by blast
        ultimately show "post (\<lambda>t' h'. after h0 h h' \<and> newTree h0 h' t')
               (frameInv h0) (Inr (Node (Some q) bk' fr' own), h4)"
          using a04 a4 q by simp
      qed simp
    qed simp
  qed
qed


lemma Node_build_frame:
  fixes h :: "'s Heap"
  shows "frameInv h0 h \<Longrightarrow> newTree h0 h t \<Longrightarrow> newPolygons h0 h ps \<Longrightarrow>
   postF (\<lambda>t' h'. after h0 h h' \<and> newTree h0 h' t') (frameInv h0) (Node_build n t ps h)"
proof (induction n arbitrary: t ps h)
  case 0
  then show ?case by (cases ps) (simp_all add: after_def)
next
  case (Suc n)
  show ?case
  proof (cases ps)
    case Nil
    then show ?thesis using Suc.prems by (simp add: after_def)
  next
    case (Cons p ps')
    obtain pl fr bk own where t: "t = Node pl fr bk own" by (cases t)
    from Suc.prems(2) have own: "newPolygons h0 h own" and pln: "\<forall>q. pl = Some q \<longrightarrow> planeN h0 \<le> q"
      and frT: "\<And>n. fr = Some n \<Longrightarrow> newTree h0 h n" and bkT: "\<And>n. bk = Some n \<Longrightarrow> newTree h0 h n"
      unfolding t by simp_all
    obtain q h1 where q: "(case pl of None \<Rightarrow> Plane_clone (Polygon_plane (polygonH h p)) h
                       | Some q \<Rightarrow> (q, h)) = (q, h1)"
      by (cases "(case pl of None \<Rightarrow> Plane_clone (Polygon_plane (polygonH h p)) h | Some q \<Rightarrow> (q, h))")
    have q1: "frameInv h0 h1 \<and> planeN h0 \<le> q \<and> polygonN h1 = polygonN h"
    proof (cases pl)
      case None
      with q have "Plane_new (Plane_normal (planeH h (Polygon_plane (polygonH h p))))
                     (Plane_w (planeH h (Polygon_plane (polygonH h p)))) h = (q, h1)"
        by (simp add: Plane_clone_def)
      from Plane_new_frame[OF Suc.prems(1) this] show ?thesis by simp
    next
      case (Some q')
      then show ?thesis using q pln Suc.prems(1) by simp
    qed
    then have i1: "frameInv h0 h1" and a01: "after h0 h h1" by (simp_all add: after_def)
    have n1: "newPolygons h0 h1 (p # ps')"
      using Suc.prems(3) Cons a01 after_newPolygons by blast
    have child: "postF (\<lambda>c h'. after h0 hx h' \<and> (\<forall>n. c = Some n \<longrightarrow> newTree h0 h' n)) (frameInv h0)
                   (buildChild n x qs hx)"
      if "\<And>c. x = Some c \<Longrightarrow> newTree h0 hx c" "frameInv h0 hx" "newPolygons h0 hx qs"
      for x qs and hx :: "'s Heap"
    proof (rule buildChild_post[where P = "newTree h0 hx"
            and Q = "\<lambda>c h'. after h0 hx h' \<and> newTree h0 h' c"])
      show "\<And>c. x = Some c \<Longrightarrow> newTree h0 hx c" by (rule that(1))
      show "newTree h0 hx Node_empty" by (simp add: Node_empty_def)
      show "\<And>t. newTree h0 hx t \<Longrightarrow> qs \<noteq> [] \<Longrightarrow>
              postF (\<lambda>c h'. after h0 hx h' \<and> newTree h0 h' c) (frameInv h0) (Node_build n t qs hx)"
      proof -
        fix t assume "newTree h0 hx t"
        from Suc.IH[OF that(2) this that(3)]
        show "postF (\<lambda>c h'. after h0 hx h' \<and> newTree h0 h' c) (frameInv h0) (Node_build n t qs hx)" .
      qed
      show "qs = [] \<Longrightarrow> after h0 hx hx \<and> (\<forall>n. x = Some n \<longrightarrow> newTree h0 hx n)"
        using that(1,2) by (simp add: after_def)
    qed simp
    show ?thesis
      unfolding t Cons Node_build_Suc q prod.case Let_def postF_bind postF_bindF
    proof (rule post_mono[OF splitAll_frame[OF i1 n1]])
      fix out :: "(target \<times> nat) list" and h2 :: "'s Heap"
      assume a2: "after h0 h1 h2 \<and> newPolygons h0 h2 (map snd out)"
      then have i2: "frameInv h0 h2" by (simp add: after_def)
      have a02: "after h0 h h2" using a01 a2 after_trans by blast
      have frn: "postF (\<lambda>c h'. after h0 h2 h' \<and> (\<forall>n. c = Some n \<longrightarrow> newTree h0 h' n)) (frameInv h0)
                   (buildChild n fr (pushed [Front] out) h2)"
      proof (rule child[OF _ i2])
        show "\<And>c. fr = Some c \<Longrightarrow> newTree h0 h2 c" by (rule after_newTree[OF frT a02])
        show "newPolygons h0 h2 (pushed [Front] out)" using a2 by (simp add: newPolygons_pushed)
      qed
      show "postF (\<lambda>fr' h3. postF (\<lambda>bk' h4. postF (\<lambda>t' h'. after h0 h h' \<and> newTree h0 h' t')
               (frameInv h0)
               (Some (Inr (Node (Some q) fr' bk' (own @ pushed [CoplanarFront, CoplanarBack] out)), h4)))
               (frameInv h0) (buildChild n bk (pushed [Back] out) h3))
             (frameInv h0) (buildChild n fr (pushed [Front] out) h2)"
      proof (rule postF_mono[OF frn])
        fix fr' and h3 :: "'s Heap"
        assume a3: "after h0 h2 h3 \<and> (\<forall>n. fr' = Some n \<longrightarrow> newTree h0 h3 n)"
        then have i3: "frameInv h0 h3" by (simp add: after_def)
        have a03: "after h0 h h3" using a02 a3 after_trans by blast
        have "newPolygons h0 h3 (map snd out)"
          using a2 a3 after_newPolygons[of h0 h2 "map snd out" h3] by simp
        then have nb: "newPolygons h0 h3 (pushed [Back] out)" by (rule newPolygons_pushed)
        have bck: "postF (\<lambda>c h'. after h0 h3 h' \<and> (\<forall>n. c = Some n \<longrightarrow> newTree h0 h' n)) (frameInv h0)
                   (buildChild n bk (pushed [Back] out) h3)"
        proof (rule child[OF _ i3 nb])
          show "\<And>c. bk = Some c \<Longrightarrow> newTree h0 h3 c" by (rule after_newTree[OF bkT a03])
        qed
        show "postF (\<lambda>bk' h4. postF (\<lambda>t' h'. after h0 h h' \<and> newTree h0 h' t')
               (frameInv h0)
               (Some (Inr (Node (Some q) fr' bk' (own @ pushed [CoplanarFront, CoplanarBack] out)), h4)))
               (frameInv h0) (buildChild n bk (pushed [Back] out) h3)"
        proof (rule postF_mono[OF bck])
          fix bk' and h4 :: "'s Heap"
          assume a4: "after h0 h3 h4 \<and> (\<forall>n. bk' = Some n \<longrightarrow> newTree h0 h4 n)"
          have a04: "after h0 h h4" using a03 a4 after_trans by blast
          have a24: "after h0 h2 h4" using a3 a4 after_trans by blast
          have "newPolygons h0 h4 own" using own a04 after_newPolygons by blast
          moreover have "newPolygons h0 h4 (map snd out)"
            using a2 a24 after_newPolygons[of h0 h2 "map snd out" h4] by simp
          then have "newPolygons h0 h4 (pushed [CoplanarFront, CoplanarBack] out)"
            by (rule newPolygons_pushed)
          moreover have "\<forall>n. fr' = Some n \<longrightarrow> newTree h0 h4 n" using a3 a4 after_newTree by blast
          ultimately show "postF (\<lambda>t' h'. after h0 h h' \<and> newTree h0 h' t') (frameInv h0)
               (Some (Inr (Node (Some q) fr' bk' (own @ pushed [CoplanarFront, CoplanarBack] out)), h4))"
            using a04 a4 q1 by simp
        qed simp
      qed simp
    qed simp
  qed
qed


lemma clonePolygons_frame:
  fixes h :: "'s Heap"
  shows "frameInv h0 h \<Longrightarrow>
   post (\<lambda>cs h'. after h0 h h' \<and> newPolygons h0 h' cs) (frameInv h0) (clonePolygons ps h)"
proof (induction ps arbitrary: h)
  case Nil
  then show ?case by (simp add: after_def)
next
  case (Cons p ps)
  show ?case
    unfolding clonePolygons.simps post_bind
  proof (rule post_mono[OF Polygon_clone_frame[OF Cons.prems]])
    fix c and h1 :: "'s Heap"
    assume a1: "after h0 h h1 \<and> polygonN h0 \<le> c \<and> c < polygonN h1"
    then have i1: "frameInv h0 h1" by (simp add: after_def)
    show "post (\<lambda>cs h2. post (\<lambda>cs h'. after h0 h h' \<and> newPolygons h0 h' cs) (frameInv h0)
              (Inr (c # cs), h2)) (frameInv h0) (clonePolygons ps h1)"
    proof (rule post_mono[OF Cons.IH[OF i1]])
      fix cs and h2 :: "'s Heap"
      assume a2: "after h0 h1 h2 \<and> newPolygons h0 h2 cs"
      show "post (\<lambda>cs h'. after h0 h h' \<and> newPolygons h0 h' cs) (frameInv h0) (Inr (c # cs), h2)"
        using a1 a2 by (auto simp: after_def)
    qed simp
  qed simp
qed

lemma CSG_clone_frame:
  fixes h :: "'s Heap"
  assumes "frameInv h0 h"
  shows "post (\<lambda>c h'. after h0 h h' \<and> newPolygons h0 h' (CSG_polygons c)) (frameInv h0)
           (CSG_clone x h)"
  unfolding CSG_clone_def post_bind
  by (rule post_mono[OF clonePolygons_frame[OF assms]]) simp_all

lemma postF_andThen:
  assumes "postF Q' E m" "\<And>a h. Q' a h \<Longrightarrow> postF Q E (f a h)"
  shows "postF Q E (andThen m f)"
  unfolding andThen_def postF_bindF
  by (rule postF_mono[OF assms(1)]) (use assms(2) in simp_all)

lemma newTree_allPolygons: "newTree h0 h t \<Longrightarrow> newPolygons h0 h (Node_allPolygons t)"
  by (simp add: newTree_def)

lemma G_clipTo_a:
  "treesNew h0 h a b \<Longrightarrow>
   postF (\<lambda>a' h'. treesNew h0 h' a' b) (frameInv h0) (Some (Node_clipTo a b h))"
  unfolding treesNew_def postF_simps
  by (rule post_mono[OF Node_clipTo_frame[of h0 h a b]]) (auto simp: after_def intro: after_newTree)

lemma G_clipTo_b:
  "treesNew h0 h a b \<Longrightarrow>
   postF (\<lambda>b' h'. treesNew h0 h' a b') (frameInv h0) (Some (Node_clipTo b a h))"
  unfolding treesNew_def postF_simps
  by (rule post_mono[OF Node_clipTo_frame[of h0 h b a]]) (auto simp: after_def intro: after_newTree)

lemma G_invert_a:
  "treesNew h0 h a b \<Longrightarrow>
   postF (\<lambda>a' h'. treesNew h0 h' a' b) (frameInv h0) (Some (Node_invert a h))"
  unfolding treesNew_def postF_simps
  by (rule post_mono[OF Node_invert_frame[of h0 h a]]) (auto simp: after_def intro: after_newTree)

lemma G_invert_b:
  "treesNew h0 h a b \<Longrightarrow>
   postF (\<lambda>b' h'. treesNew h0 h' a b') (frameInv h0) (Some (Node_invert b h))"
  unfolding treesNew_def postF_simps
  by (rule post_mono[OF Node_invert_frame[of h0 h b]]) (auto simp: after_def intro: after_newTree)

lemma G_build:
  "treesNew h0 h a b \<Longrightarrow>
   postF (\<lambda>a' h'. treesNew h0 h' a' b) (frameInv h0) (Node_build n a (Node_allPolygons b) h)"
  unfolding treesNew_def
  by (rule postF_mono[OF Node_build_frame[of h0 h a "Node_allPolygons b" n]])
     (auto simp: after_def intro: after_newTree newTree_allPolygons)

lemma G_result:
  "treesNew h0 h a b \<Longrightarrow>
   postF (\<lambda>r h'. frameInv h0 h') (frameInv h0) (Some (Inr (CSG_fromPolygons (Node_allPolygons a)), h))"
  by (simp add: treesNew_def)

lemma G_prefix:
  fixes h :: "'s Heap"
  assumes "frameInv h0 h" "\<And>a b h'. treesNew h0 h' a b \<Longrightarrow> postF Q (frameInv h0) (rest a b h')"
  shows "postF Q (frameInv h0)
     (andThen (Some (CSG_clone this h)) (\<lambda>c1 h.
      andThen (Node_new n (CSG_polygons c1) h) (\<lambda>a h.
      andThen (Some (CSG_clone csg h)) (\<lambda>c2 h.
      andThen (Node_new n (CSG_polygons c2) h) (\<lambda>b h. rest a b h)))))"
proof (rule postF_andThen[where Q' = "\<lambda>c h'. frameInv h0 h' \<and> newPolygons h0 h' (CSG_polygons c)"])
  show "postF (\<lambda>c h'. frameInv h0 h' \<and> newPolygons h0 h' (CSG_polygons c)) (frameInv h0)
          (Some (CSG_clone this h))"
    unfolding postF_simps
    by (rule post_mono[OF CSG_clone_frame[OF assms(1)]]) (simp_all add: after_def)
next
  fix c1 and h1 :: "'s Heap"
  assume s1: "frameInv h0 h1 \<and> newPolygons h0 h1 (CSG_polygons c1)"
  show "postF Q (frameInv h0)
          (andThen (Node_new n (CSG_polygons c1) h1) (\<lambda>a h.
           andThen (Some (CSG_clone csg h)) (\<lambda>c2 h.
           andThen (Node_new n (CSG_polygons c2) h) (\<lambda>b h. rest a b h))))"
  proof (rule postF_andThen[where Q' = "\<lambda>a h'. frameInv h0 h' \<and> newTree h0 h' a"])
    show "postF (\<lambda>a h'. frameInv h0 h' \<and> newTree h0 h' a) (frameInv h0)
            (Node_new n (CSG_polygons c1) h1)"
      unfolding Node_new_def
      by (rule postF_mono[OF Node_build_frame[of h0 h1 Node_empty "CSG_polygons c1" n]])
         (use s1 in \<open>simp_all add: after_def Node_empty_def\<close>)
  next
    fix a and h2 :: "'s Heap"
    assume s2: "frameInv h0 h2 \<and> newTree h0 h2 a"
    show "postF Q (frameInv h0)
            (andThen (Some (CSG_clone csg h2)) (\<lambda>c2 h.
             andThen (Node_new n (CSG_polygons c2) h) (\<lambda>b h. rest a b h)))"
    proof (rule postF_andThen[where Q' = "\<lambda>c h'. frameInv h0 h' \<and> newTree h0 h' a
                                            \<and> newPolygons h0 h' (CSG_polygons c)"])
      show "postF (\<lambda>c h'. frameInv h0 h' \<and> newTree h0 h' a \<and> newPolygons h0 h' (CSG_polygons c))
              (frameInv h0) (Some (CSG_clone csg h2))"
        unfolding postF_simps
        by (rule post_mono[OF CSG_clone_frame[of h0 h2 csg]])
           (use s2 in \<open>auto simp: after_def intro: after_newTree\<close>)
    next
      fix c2 and h3 :: "'s Heap"
      assume s3: "frameInv h0 h3 \<and> newTree h0 h3 a \<and> newPolygons h0 h3 (CSG_polygons c2)"
      show "postF Q (frameInv h0)
              (andThen (Node_new n (CSG_polygons c2) h3) (\<lambda>b h. rest a b h))"
      proof (rule postF_andThen[where Q' = "\<lambda>b h'. treesNew h0 h' a b"])
        show "postF (\<lambda>b h'. treesNew h0 h' a b) (frameInv h0) (Node_new n (CSG_polygons c2) h3)"
          unfolding Node_new_def treesNew_def
          by (rule postF_mono[OF Node_build_frame[of h0 h3 Node_empty "CSG_polygons c2" n]])
             (use s3 in \<open>auto simp: after_def Node_empty_def intro: after_newTree\<close>)
      qed (rule assms(2))
    qed
  qed
qed

lemma CSG_union_frame:
  "postF (\<lambda>r h'. frameInv h h') (frameInv h) (CSG_union n this csg h)"
  unfolding CSG_union_def
  apply (rule G_prefix[OF frameInv_refl])
  apply (rule postF_andThen, erule G_clipTo_a)
  apply (rule postF_andThen, erule G_clipTo_b)
  apply (rule postF_andThen, erule G_invert_b)
  apply (rule postF_andThen, erule G_clipTo_b)
  apply (rule postF_andThen, erule G_invert_b)
  apply (rule postF_andThen, erule G_build)
  apply (erule G_result)
  done

lemma CSG_subtract_frame:
  "postF (\<lambda>r h'. frameInv h h') (frameInv h) (CSG_subtract n this csg h)"
  unfolding CSG_subtract_def
  apply (rule G_prefix[OF frameInv_refl])
  apply (rule postF_andThen, erule G_invert_a)
  apply (rule postF_andThen, erule G_clipTo_a)
  apply (rule postF_andThen, erule G_clipTo_b)
  apply (rule postF_andThen, erule G_invert_b)
  apply (rule postF_andThen, erule G_clipTo_b)
  apply (rule postF_andThen, erule G_invert_b)
  apply (rule postF_andThen, erule G_build)
  apply (rule postF_andThen, erule G_invert_a)
  apply (erule G_result)
  done

lemma CSG_intersect_frame:
  "postF (\<lambda>r h'. frameInv h h') (frameInv h) (CSG_intersect n this csg h)"
  unfolding CSG_intersect_def
  apply (rule G_prefix[OF frameInv_refl])
  apply (rule postF_andThen, erule G_invert_a)
  apply (rule postF_andThen, erule G_clipTo_b)
  apply (rule postF_andThen, erule G_invert_b)
  apply (rule postF_andThen, erule G_clipTo_a)
  apply (rule postF_andThen, erule G_clipTo_b)
  apply (rule postF_andThen, erule G_build)
  apply (rule postF_andThen, erule G_invert_a)
  apply (erule G_result)
  done

lemma CSG_inverse_frame:
  "post (\<lambda>r h'. frameInv h h') (frameInv h) (CSG_inverse this h)"
  unfolding CSG_inverse_def post_bind
proof (rule post_mono[OF CSG_clone_frame[OF frameInv_refl]])
  fix c and h1 :: "'a Heap"
  assume "after h h h1 \<and> newPolygons h h1 (CSG_polygons c)"
  then show "post (\<lambda>r h'. frameInv h h') (frameInv h) (Inr c, fold Polygon_flip (CSG_polygons c) h1)"
    using fold_Polygon_flip_frame[of h h1 "CSG_polygons c"] by (simp add: after_def)
qed (simp add: after_def)

section \<open>The operators leave their arguments alone\<close>

lemmas eval_defs = andThen_def CSG_clone_def CSG_fromPolygons_def Polygon_clone_def Vertex_clone_def
  Vertex_new_def Array_new_def Polygon_new_def Plane_fromPoints_def Plane_new_def Plane_clone_def
  Node_new_def Node_empty_def Polygon_flip_def Vertex_flip_def Plane_flip_def Plane_splitPolygon_def
  vertexTypes_def vertexType_def polygonType_def pushed_def Let_def Plane_EPSILON_def

lemma ex_union:
  "\<exists>h'. CSG_union 1 \<lparr>CSG_polygons = [0]\<rparr> \<lparr>CSG_polygons = [4]\<rparr> exampleHeap
     = Some (Inr \<lparr>CSG_polygons = [5]\<rparr>, h')"
  by (simp add: CSG_union_def eval_defs example_defs Vector_defs code_defs)

lemma unchanged_solid:
  assumes "unchangedFrom h h'" "allocatedSolid h A"
  shows "solidValue h' A = solidValue h A"
proof -
  have "polygonValue h' p = polygonValue h p" if "p \<in> set (CSG_polygons A)" for p
  proof -
    from assms(2) that have al: "p < polygonN h" "Polygon_vertices (polygonH h p) < arrayN h"
      "Polygon_plane (polygonH h p) < planeN h"
      "\<forall>v\<in>set (arrayH h (Polygon_vertices (polygonH h p))). v < vertexN h"
      unfolding allocatedSolid_def by auto
    have 1: "polygonH h' p = polygonH h p" using assms(1) al(1) by (simp add: unchangedFrom_def)
    have 2: "arrayH h' (Polygon_vertices (polygonH h p)) = arrayH h (Polygon_vertices (polygonH h p))"
      using assms(1) al(2) by (simp add: unchangedFrom_def)
    have 3: "planeH h' (Polygon_plane (polygonH h p)) = planeH h (Polygon_plane (polygonH h p))"
      using assms(1) al(3) by (simp add: unchangedFrom_def)
    have 4: "map (vertexH h') (arrayH h (Polygon_vertices (polygonH h p)))
           = map (vertexH h) (arrayH h (Polygon_vertices (polygonH h p)))"
      using assms(1) al(4) by (simp add: unchangedFrom_def)
    show ?thesis by (simp add: polygonValue_def 1 2 3 4)
  qed
  then show ?thesis by (simp add: solidValue_def)
qed

text \<open>
  Claim C2. \<^verbatim>\<open>union\<close>, \<^verbatim>\<open>subtract\<close>, \<^verbatim>\<open>intersect\<close> and \<^verbatim>\<open>inverse\<close> write only to
  objects they have allocated themselves. Whenever a call ends, by returning or by
  throwing, every vertex, vertex array, plane and polygon that existed before the call has
  the content it had, so both solids have the same polygons with the same vertices,
  normals, planes and tags. (The operators only read the \<^verbatim>\<open>polygons\<close> arrays of their
  arguments, which are list values here.)
\<close>

theorem operators_keep_arguments:
  fixes h :: "'s Heap"
  assumes "allocatedSolid h A" "allocatedSolid h B"
  shows "(\<forall>r h'. CSG_union n A B h = Some (r, h') \<longrightarrow>
            unchangedFrom h h' \<and> solidValue h' A = solidValue h A \<and> solidValue h' B = solidValue h B)
     \<and> (\<forall>r h'. CSG_subtract n A B h = Some (r, h') \<longrightarrow>
            unchangedFrom h h' \<and> solidValue h' A = solidValue h A \<and> solidValue h' B = solidValue h B)
     \<and> (\<forall>r h'. CSG_intersect n A B h = Some (r, h') \<longrightarrow>
            unchangedFrom h h' \<and> solidValue h' A = solidValue h A \<and> solidValue h' B = solidValue h B)
     \<and> (\<forall>r h'. CSG_inverse A h = (r, h') \<longrightarrow>
            unchangedFrom h h' \<and> solidValue h' A = solidValue h A)"
proof -
  have fin: "unchangedFrom h h' \<and> solidValue h' A = solidValue h A \<and> solidValue h' B = solidValue h B"
    if "frameInv h h'" for h'
    using that unchanged_solid[OF _ assms(1)] unchanged_solid[OF _ assms(2)]
    by (simp add: frameInv_def)
  have any: "frameInv h h'" if "post (\<lambda>r h'. frameInv h h') (frameInv h) (r, h')"
    for r :: "error + CSG" and h'
    using that by (cases r) simp_all
  have u: "frameInv h h'" if "CSG_union n A B h = Some (r, h')" for r h'
    using CSG_union_frame[of h n A B] that any by simp
  have s: "frameInv h h'" if "CSG_subtract n A B h = Some (r, h')" for r h'
    using CSG_subtract_frame[of h n A B] that any by simp
  have i: "frameInv h h'" if "CSG_intersect n A B h = Some (r, h')" for r h'
    using CSG_intersect_frame[of h n A B] that any by simp
  have v: "frameInv h h'" if "CSG_inverse A h = (r, h')" for r h'
    using CSG_inverse_frame[of h A] that any by simp
  show ?thesis using u s i v fin by blast
qed

text \<open>
  At the example store: the union of the solid made of polygon 0 and the solid made of
  polygon 4 returns a solid made of the new polygon 5, and both arguments read as before.
\<close>

theorem operators_keep_arguments_witness:
  "\<exists>h'. CSG_union 1 \<lparr>CSG_polygons = [0]\<rparr> \<lparr>CSG_polygons = [4]\<rparr> exampleHeap
           = Some (Inr \<lparr>CSG_polygons = [5]\<rparr>, h')
     \<and> solidValue h' \<lparr>CSG_polygons = [0]\<rparr> = solidValue exampleHeap \<lparr>CSG_polygons = [0]\<rparr>
     \<and> solidValue h' \<lparr>CSG_polygons = [4]\<rparr> = solidValue exampleHeap \<lparr>CSG_polygons = [4]\<rparr>"
proof -
  have a: "allocatedSolid exampleHeap \<lparr>CSG_polygons = [0]\<rparr>"
    "allocatedSolid exampleHeap \<lparr>CSG_polygons = [4]\<rparr>"
    by (simp_all add: allocatedSolid_def example_defs)
  from ex_union obtain h' where
    u: "CSG_union 1 \<lparr>CSG_polygons = [0]\<rparr> \<lparr>CSG_polygons = [4]\<rparr> exampleHeap
          = Some (Inr \<lparr>CSG_polygons = [5]\<rparr>, h')" by blast
  from operators_keep_arguments[OF a, of 1] u
  have "solidValue h' \<lparr>CSG_polygons = [0]\<rparr> = solidValue exampleHeap \<lparr>CSG_polygons = [0]\<rparr>
     \<and> solidValue h' \<lparr>CSG_polygons = [4]\<rparr> = solidValue exampleHeap \<lparr>CSG_polygons = [4]\<rparr>"
    by blast
  then show ?thesis using u by blast
qed

section \<open>subtract and the clip sequence of union\<close>

lemma sqrt_9: "sqrt 9 = 3"
  using real_sqrt_abs[of 3] by simp

lemmas dart_defs = dartHeap_def cells_def vtx_def pln_def pgn_def

lemma dart_planes:
  "fst (Plane_fromPoints (Vertex_pos (vertexH dartHeap 0)) (Vertex_pos (vertexH dartHeap 1))
          (Vertex_pos (vertexH dartHeap 2)) dartHeap) = 2"
  "planeH (snd (Plane_fromPoints (Vertex_pos (vertexH dartHeap 0)) (Vertex_pos (vertexH dartHeap 1))
          (Vertex_pos (vertexH dartHeap 2)) dartHeap)) 2 = pln 0 0 1 0"
  "planeH (snd (Plane_fromPoints (Vertex_pos (vertexH dartHeap 3)) (Vertex_pos (vertexH dartHeap 2))
          (Vertex_pos (vertexH dartHeap 1)) dartHeap)) 2 = pln 0 0 1 0"
  by (simp_all add: Plane_fromPoints_def Plane_new_def Let_def dart_defs Vector_defs sqrt_9)


lemma dart_inverse:
  "\<exists>h'. CSG_inverse \<lparr>CSG_polygons = [0]\<rparr> dartHeap = (Inr \<lparr>CSG_polygons = [2]\<rparr>, h')"
  by (simp add: CSG_inverse_def eval_defs dart_defs Vector_defs code_defs sqrt_9)








end
